theory Spec2Isabelle
  imports Complex_Main "HOL-Library.Product_Lexorder" "HOL-Library.Multiset"
begin

section \<open>Harvester pricing assistant: aggregation, pricing and the legacy price table\<close>

text \<open>
  The development follows the two copies of the application component in the repository:
  \<^verbatim>\<open>src/src/App.tsx\<close> and the later copy \<^verbatim>\<open>src/unnamed/part_000\<close>. Both contain
  the same \<^verbatim>\<open>resolveDbhClass\<close>, \<^verbatim>\<open>aggregateBySpeciesAndDbh\<close>,
  \<^verbatim>\<open>getLegacyPriceForVolume\<close> and \<^verbatim>\<open>calculateResults\<close>; they differ in
  \<^verbatim>\<open>processFiles\<close> and in the bulk import of the legacy price table, where each copy
  has its own definition below.

  JavaScript numbers are modelled as \<^typ>\<open>real\<close>: sums, products and comparisons are
  exact, rounding and overflow of double precision are outside the model. Only where the source
  tests \<^verbatim>\<open>Number.isFinite\<close> (the diameter of a stem) the non-finite values are
  kept as constructors of their own.
\<close>

subsection \<open>Data model\<close>

text \<open>
  The broadleaf category of the source (spelled with an o-umlaut there) is written \<open>Lov\<close>.
  The field
  \<^verbatim>\<open>end_time\<close> of a stem is never written or read and is left out.
\<close>

datatype SpeciesCategory = Tall | Gran | Lov

datatype jsnumber = Finite real | PosInfinity | NegInfinity | NaN

record Stem =
  stem_key :: string
  harvest_date :: string
  stem_volume :: real
  dbh :: "jsnumber option"
  speciesGroupKey :: "string option"
  speciesName :: "string option"
  speciesCategory :: SpeciesCategory

record CalculationParams =
  maxPerTreeTime :: real
  harvestingCostRate :: real
  forwardingSK :: real
  skiddingDistanceSA :: real
  standRemovalUT :: real
  k1 :: real
  k2 :: real
  c11 :: real

record ResultRow =
  species :: SpeciesCategory
  dbhClass :: real
  stems :: nat
  totalTime :: real
  totalVolume :: real
  productivity :: real
  harvestingCost :: real
  forwardingCostPerCubicMeter :: real
  pricePerCubicMeter :: real
  totalCost :: real
  totalPrice :: real

text \<open>
  The fields of \<^verbatim>\<open>NewTotals\<close> and \<^verbatim>\<open>LegacyTotals\<close> carry a prefix, since
  several of them share their names with fields of \<^verbatim>\<open>ResultRow\<close>.
\<close>

record NewTotals =
  new_totalStems :: nat
  new_totalVolume :: real
  new_averagePrice :: real
  new_totalPrice :: real
  new_forwardingCostPerCubicMeter :: real
  new_totalForwardingCost :: real
  new_combinedTotal :: real

record LegacyTotals =
  legacy_totalStems :: nat
  legacy_totalVolume :: real
  legacy_averageVolume :: real
  legacy_averagePrice :: real
  legacy_totalPrice :: real

record LegacyPriceEntry =
  averageVolume :: real
  price :: real

type_synonym SpeciesDivisors = "SpeciesCategory \<Rightarrow> real option list"

definition LEGACY_AVERAGE_VOLUMES :: "real list" where
  "LEGACY_AVERAGE_VOLUMES =
     [0.2, 0.25, 0.3, 0.35, 0.4, 0.45, 0.5, 0.55, 0.6, 0.65, 0.7, 0.75, 0.8, 0.9, 1]"

definition DBH_CLASSES :: "real list" where
  "DBH_CLASSES =
     [80, 100, 120, 140, 160, 180, 200, 220, 240, 260, 280, 300, 320, 340, 360, 380, 400,
      420, 440, 460, 480, 500, 520, 540, 560, 580]"

definition SUPPORTED_SPECIES :: "SpeciesCategory list" where
  "SUPPORTED_SPECIES = [Tall, Gran, Lov]"

subsection \<open>Arrays and insertion-ordered maps\<close>

text \<open>
  \<^verbatim>\<open>Array.prototype.indexOf\<close> returns \<open>-1\<close> for a value that is absent, and an
  index out of range reads \<^verbatim>\<open>undefined\<close>.
\<close>

fun indexOf_from :: "int \<Rightarrow> 'a list \<Rightarrow> 'a \<Rightarrow> int" where
  "indexOf_from i [] x = -1"
| "indexOf_from i (y # ys) x = (if y = x then i else indexOf_from (i + 1) ys x)"

definition indexOf :: "'a list \<Rightarrow> 'a \<Rightarrow> int" where
  "indexOf xs x = indexOf_from 0 xs x"

definition js_nth :: "'a list \<Rightarrow> int \<Rightarrow> 'a option" where
  "js_nth xs i = (if 0 \<le> i \<and> i < int (length xs) then Some (xs ! nat i) else None)"

text \<open>
  A \<^verbatim>\<open>Map\<close> keeps its keys in insertion order; \<^verbatim>\<open>set\<close> on a key that is
  present replaces the value in place.
\<close>

fun map_get :: "('k \<times> 'v) list \<Rightarrow> 'k \<Rightarrow> 'v option" where
  "map_get [] k = None"
| "map_get ((k', v) # m) k = (if k' = k then Some v else map_get m k)"

fun map_set :: "('k \<times> 'v) list \<Rightarrow> 'k \<Rightarrow> 'v \<Rightarrow> ('k \<times> 'v) list" where
  "map_set [] k v = [(k, v)]"
| "map_set ((k', v') # m) k v = (if k' = k then (k, v) # m else (k', v') # map_set m k v)"

subsection \<open>Diameter binner\<close>

fun first_threshold :: "real \<Rightarrow> real list \<Rightarrow> real option" where
  "first_threshold d [] = None"
| "first_threshold d (threshold # rest) =
     (if d \<le> threshold then Some threshold else first_threshold d rest)"

definition resolveDbhClass :: "jsnumber option \<Rightarrow> real option" where
  "resolveDbhClass d =
     (case d of
        None \<Rightarrow> None
      | Some (Finite x) \<Rightarrow>
          if x \<le> 0 then None
          else (case first_threshold x DBH_CLASSES of
                  Some threshold \<Rightarrow> Some threshold
                | None \<Rightarrow> if DBH_CLASSES = [] then None else Some (last DBH_CLASSES))
      | Some _ \<Rightarrow> None)"

subsection \<open>Aggregator\<close>

record AggBin =
  bin_stems :: "Stem list"
  bin_totalTime :: real
  bin_totalVolume :: real

type_synonym Aggregated = "SpeciesCategory \<Rightarrow> (real \<times> AggBin) list"

definition aggregate_stem :: "real \<Rightarrow> Aggregated \<Rightarrow> Stem \<Rightarrow> Aggregated" where
  "aggregate_stem perStemTime aggregated stem =
     (case resolveDbhClass (dbh stem) of
        None \<Rightarrow> aggregated
      | Some cls \<Rightarrow>
          if cls = 0 then aggregated
          else
            let sp = speciesCategory stem;
                speciesMap = aggregated sp;
                current = (case map_get speciesMap cls of
                             Some b \<Rightarrow> b
                           | None \<Rightarrow> \<lparr>bin_stems = [], bin_totalTime = 0, bin_totalVolume = 0\<rparr>);
                current' = \<lparr>bin_stems = bin_stems current @ [stem],
                            bin_totalTime = bin_totalTime current + perStemTime,
                            bin_totalVolume = bin_totalVolume current + stem_volume stem\<rparr>
            in aggregated(sp := map_set speciesMap cls current'))"

definition aggregateBySpeciesAndDbh :: "CalculationParams \<Rightarrow> Stem list \<Rightarrow> Aggregated option" where
  "aggregateBySpeciesAndDbh params stem_list =
     (if stem_list = [] then None
      else Some (foldl (aggregate_stem (min (maxPerTreeTime params) 30)) (\<lambda>_. []) stem_list))"

subsection \<open>Legacy nearest-volume lookup\<close>

fun nearest_scan :: "real \<Rightarrow> LegacyPriceEntry \<Rightarrow> real \<Rightarrow> LegacyPriceEntry list \<Rightarrow> LegacyPriceEntry" where
  "nearest_scan volume nearest minDiff [] = nearest"
| "nearest_scan volume nearest minDiff (entry # rest) =
     (let diff = \<bar>averageVolume entry - volume\<bar>
      in if diff < minDiff then nearest_scan volume entry diff rest
         else nearest_scan volume nearest minDiff rest)"

text \<open>The value of the variable \<^verbatim>\<open>nearest\<close> when the loop of
  \<^verbatim>\<open>getLegacyPriceForVolume\<close> ends, for a table that is not empty.\<close>

definition nearestLegacyEntry :: "LegacyPriceEntry list \<Rightarrow> real \<Rightarrow> LegacyPriceEntry" where
  "nearestLegacyEntry legacyPrices volume =
     nearest_scan volume (hd legacyPrices) \<bar>averageVolume (hd legacyPrices) - volume\<bar>
       (tl legacyPrices)"

definition getLegacyPriceForVolume :: "LegacyPriceEntry list \<Rightarrow> real option \<Rightarrow> real" where
  "getLegacyPriceForVolume legacyPrices volume =
     (case volume of
        None \<Rightarrow> 0
      | Some v \<Rightarrow>
          if v = 0 \<or> v \<le> 0 \<or> legacyPrices = [] then 0
          else price (nearestLegacyEntry legacyPrices v))"

subsection \<open>Pricing engine\<close>

definition forwardingTimeFactor :: "CalculationParams \<Rightarrow> real" where
  "forwardingTimeFactor params =
     (let standRemoval = standRemovalUT params
      in if standRemoval > 0
         then (k1 params * (5.7 + k2 params * standRemoval + c11 params * sqrt standRemoval))
                / standRemoval
         else 0)"

definition forwardingCost :: "CalculationParams \<Rightarrow> real" where
  "forwardingCost params =
     (forwardingTimeFactor params / 60) * forwardingSK params
       + (skiddingDistanceSA params / 100) * 4"

definition bin_divisor :: "SpeciesDivisors \<Rightarrow> SpeciesCategory \<Rightarrow> real \<Rightarrow> real option" where
  "bin_divisor speciesDivisors sp cls =
     (let classIndex = indexOf DBH_CLASSES cls
      in if classIndex \<ge> 0
         then (case js_nth (speciesDivisors sp) classIndex of
                 Some (Some dv) \<Rightarrow> Some dv
               | _ \<Rightarrow> None)
         else None)"

definition bin_price :: "CalculationParams \<Rightarrow> real option \<Rightarrow> real" where
  "bin_price params divisor =
     (case divisor of
        Some dv \<Rightarrow> if dv \<noteq> 0 \<and> dv > 0 then harvestingCostRate params / dv else 0
      | None \<Rightarrow> 0)"

definition bin_row ::
  "CalculationParams \<Rightarrow> SpeciesDivisors \<Rightarrow> SpeciesCategory \<Rightarrow> real \<Rightarrow> AggBin \<Rightarrow> ResultRow" where
  "bin_row params speciesDivisors sp cls data =
     (let tTime = bin_totalTime data;
          tVolume = bin_totalVolume data;
          stemsCount = length (bin_stems data);
          prod = (if tTime > 0 then tVolume / (tTime / 3600) else 0);
          hCost = (if tVolume > 0 then (tTime / tVolume) * (harvestingCostRate params / 3600) else 0);
          divisor = bin_divisor speciesDivisors sp cls;
          ppcm = bin_price params divisor;
          tPrice = ppcm * tVolume;
          tCost = hCost + forwardingCost params - ppcm
      in \<lparr>species = sp, dbhClass = cls, stems = stemsCount, totalTime = tTime,
          totalVolume = tVolume, productivity = prod, harvestingCost = hCost,
          forwardingCostPerCubicMeter = forwardingCost params, pricePerCubicMeter = ppcm,
          totalCost = tCost, totalPrice = tPrice\<rparr>)"

definition species_rows ::
  "CalculationParams \<Rightarrow> SpeciesDivisors \<Rightarrow> Aggregated \<Rightarrow> SpeciesCategory \<Rightarrow> ResultRow list" where
  "species_rows params speciesDivisors aggregated sp =
     (let speciesData = aggregated sp;
          sortedDbhs = sort (map fst speciesData)
      in List.map_filter
           (\<lambda>cls. case map_get speciesData cls of
                     None \<Rightarrow> None
                   | Some data \<Rightarrow> Some (bin_row params speciesDivisors sp cls data))
           sortedDbhs)"

text \<open>
  The comparator of the final sort orders rows by the position of their species in
  \<^verbatim>\<open>SUPPORTED_SPECIES\<close> and, within one species, by diameter class; the sort is
  stable.
\<close>

definition row_order :: "ResultRow \<Rightarrow> int \<times> real" where
  "row_order row = (indexOf SUPPORTED_SPECIES (species row), dbhClass row)"

record CalculationOutput =
  out_results :: "ResultRow list"
  out_newTotals :: NewTotals
  out_oldModelSummary :: LegacyTotals

text \<open>
  \<^verbatim>\<open>calculateResults\<close> sets the three state variables \<^verbatim>\<open>results\<close>,
  \<^verbatim>\<open>newTotals\<close> and \<^verbatim>\<open>oldModelSummary\<close>, or returns before setting any
  of them when the dataset is empty: the result \<open>None\<close>.
\<close>

definition calculateResults ::
  "CalculationParams \<Rightarrow> SpeciesDivisors \<Rightarrow> LegacyPriceEntry list \<Rightarrow> Stem list
     \<Rightarrow> CalculationOutput option" where
  "calculateResults params speciesDivisors legacyPrices stem_list =
     (case aggregateBySpeciesAndDbh params stem_list of
        None \<Rightarrow> None
      | Some aggregated \<Rightarrow>
          let baseResults =
                sort_key row_order
                  (concat (map (species_rows params speciesDivisors aggregated) SUPPORTED_SPECIES));
              tStems = foldl (\<lambda>acc row. acc + stems row) 0 baseResults;
              tVolume = foldl (\<lambda>acc row. acc + totalVolume row) 0 baseResults;
              tPrice = foldl (\<lambda>acc row. acc + totalPrice row) 0 baseResults;
              avgPrice = (if tVolume > 0 then tPrice / tVolume else 0);
              averageVolumePerStem = (if tStems > 0 then tVolume / real tStems else 0);
              totalForwardingCost = forwardingCost params * tVolume;
              combinedTotal = tPrice + totalForwardingCost;
              legacyPrice = getLegacyPriceForVolume legacyPrices (Some averageVolumePerStem)
          in Some \<lparr>out_results = baseResults,
                   out_newTotals =
                     \<lparr>new_totalStems = tStems, new_totalVolume = tVolume,
                      new_averagePrice = avgPrice, new_totalPrice = tPrice,
                      new_forwardingCostPerCubicMeter = forwardingCost params,
                      new_totalForwardingCost = totalForwardingCost,
                      new_combinedTotal = combinedTotal\<rparr>,
                   out_oldModelSummary =
                     \<lparr>legacy_totalStems = tStems, legacy_totalVolume = tVolume,
                      legacy_averageVolume = averageVolumePerStem,
                      legacy_averagePrice = legacyPrice,
                      legacy_totalPrice = legacyPrice * tVolume\<rparr>\<rparr>)"

subsection \<open>Species classifier\<close>

text \<open>
  A species name is a string over Latin-1: a character stands for the code point of its number,
  up to U+00FF, which covers the Swedish and English names the component is written for.
  \<^verbatim>\<open>normalizeSpeciesIdentifier\<close> decomposes the name canonically (NFD), removes the code
  points with the Unicode property \<^verbatim>\<open>Diacritic\<close> and converts to upper case. Its result
  is a list of code points, since two characters of Latin-1 have their upper case outside
  Latin-1. The tables are those of Unicode for the code points that can occur:
  \<^item> the canonical decompositions of the characters of Latin-1, each a base letter and one
    combining mark (a name over Latin-1 holds no combining mark, so nothing is reordered);
  \<^item> the code points with the property \<^verbatim>\<open>Diacritic\<close> in Latin-1, among them the
    circumflex and the grave accent of ASCII, and in the block of combining marks
    U+0300 to U+034E;
  \<^item> the upper-case mappings of Latin-1, where the sharp s becomes two letters.
\<close>

type_synonym codepoint = nat

definition LATIN1_DECOMPOSITIONS :: "(codepoint \<times> codepoint list) list" where
  "LATIN1_DECOMPOSITIONS =
     [(0xC0, [0x41, 0x0300]), (0xC1, [0x41, 0x0301]), (0xC2, [0x41, 0x0302]),
      (0xC3, [0x41, 0x0303]), (0xC4, [0x41, 0x0308]), (0xC5, [0x41, 0x030A]),
      (0xC7, [0x43, 0x0327]), (0xC8, [0x45, 0x0300]), (0xC9, [0x45, 0x0301]),
      (0xCA, [0x45, 0x0302]), (0xCB, [0x45, 0x0308]), (0xCC, [0x49, 0x0300]),
      (0xCD, [0x49, 0x0301]), (0xCE, [0x49, 0x0302]), (0xCF, [0x49, 0x0308]),
      (0xD1, [0x4E, 0x0303]), (0xD2, [0x4F, 0x0300]), (0xD3, [0x4F, 0x0301]),
      (0xD4, [0x4F, 0x0302]), (0xD5, [0x4F, 0x0303]), (0xD6, [0x4F, 0x0308]),
      (0xD9, [0x55, 0x0300]), (0xDA, [0x55, 0x0301]), (0xDB, [0x55, 0x0302]),
      (0xDC, [0x55, 0x0308]), (0xDD, [0x59, 0x0301]), (0xE0, [0x61, 0x0300]),
      (0xE1, [0x61, 0x0301]), (0xE2, [0x61, 0x0302]), (0xE3, [0x61, 0x0303]),
      (0xE4, [0x61, 0x0308]), (0xE5, [0x61, 0x030A]), (0xE7, [0x63, 0x0327]),
      (0xE8, [0x65, 0x0300]), (0xE9, [0x65, 0x0301]), (0xEA, [0x65, 0x0302]),
      (0xEB, [0x65, 0x0308]), (0xEC, [0x69, 0x0300]), (0xED, [0x69, 0x0301]),
      (0xEE, [0x69, 0x0302]), (0xEF, [0x69, 0x0308]), (0xF1, [0x6E, 0x0303]),
      (0xF2, [0x6F, 0x0300]), (0xF3, [0x6F, 0x0301]), (0xF4, [0x6F, 0x0302]),
      (0xF5, [0x6F, 0x0303]), (0xF6, [0x6F, 0x0308]), (0xF9, [0x75, 0x0300]),
      (0xFA, [0x75, 0x0301]), (0xFB, [0x75, 0x0302]), (0xFC, [0x75, 0x0308]),
      (0xFD, [0x79, 0x0301]), (0xFF, [0x79, 0x0308])]"

definition normalize_NFD :: "codepoint list \<Rightarrow> codepoint list" where
  "normalize_NFD cps =
     concat (map (\<lambda>cp. case map_of LATIN1_DECOMPOSITIONS cp of Some d \<Rightarrow> d | None \<Rightarrow> [cp]) cps)"

definition isDiacritic :: "codepoint \<Rightarrow> bool" where
  "isDiacritic cp \<longleftrightarrow>
     cp \<in> {0x5E, 0x60, 0xA8, 0xAF, 0xB4, 0xB7, 0xB8} \<or> (0x300 \<le> cp \<and> cp \<le> 0x34E)"

definition toUpperCase_cp :: "codepoint \<Rightarrow> codepoint list" where
  "toUpperCase_cp cp =
     (if 0x61 \<le> cp \<and> cp \<le> 0x7A then [cp - 0x20]
      else if cp = 0xB5 then [0x39C]
      else if cp = 0xDF then [0x53, 0x53]
      else if 0xE0 \<le> cp \<and> cp \<le> 0xFE \<and> cp \<noteq> 0xF7 then [cp - 0x20]
      else if cp = 0xFF then [0x178]
      else [cp])"

definition normalizeSpeciesIdentifier :: "string \<Rightarrow> codepoint list" where
  "normalizeSpeciesIdentifier v =
     concat (map toUpperCase_cp
       (filter (\<lambda>cp. \<not> isDiacritic cp) (normalize_NFD (map of_char v))))"

text \<open>A regular expression that is an alternation of plain words tests whether one of the
  words occurs in the string.\<close>

fun starts_with :: "'a list \<Rightarrow> 'a list \<Rightarrow> bool" where
  "starts_with [] s = True"
| "starts_with (p # ps) [] = False"
| "starts_with (p # ps) (c # cs) = (p = c \<and> starts_with ps cs)"

fun includes_word :: "'a list \<Rightarrow> 'a list \<Rightarrow> bool" where
  "includes_word w [] = (w = [])"
| "includes_word w (c # cs) = (starts_with w (c # cs) \<or> includes_word w cs)"

definition regex_test :: "string list \<Rightarrow> codepoint list \<Rightarrow> bool" where
  "regex_test alternatives s = list_ex (\<lambda>w. includes_word (map of_char w) s) alternatives"

definition mapSpeciesNameToCategory :: "string option \<Rightarrow> SpeciesCategory" where
  "mapSpeciesNameToCategory rawName =
     (case rawName of
        None \<Rightarrow> Lov
      | Some name \<Rightarrow>
          if name = [] then Lov
          else
            let normalized = normalizeSpeciesIdentifier name
            in if regex_test [''TALL'', ''PINE'', ''LARK''] normalized then Tall
               else if regex_test [''GRAN'', ''SPRUCE'', ''BARKBORRE''] normalized then Gran
               else if regex_test [''LOV'', ''BJORK'', ''ASP'', ''BOK'', ''EK'', ''OVR''] normalized
                    then Lov
               else Lov)"

subsection \<open>Numeric text\<close>

text \<open>
  White space is the ASCII white space: space, tab, line feed, vertical tab, form feed and
  carriage return. \<^verbatim>\<open>Number\<close> is modelled on decimal literals with an optional sign
  and an optional fraction, which is all that a token of the numeric pattern of the bulk import
  can be; every other text reads as not-a-number here (exponents, radix prefixes and
  \<^verbatim>\<open>Infinity\<close> are outside the model), and \<^verbatim>\<open>parseNumber\<close> turns that
  into zero.
\<close>

definition isWhitespace :: "char \<Rightarrow> bool" where
  "isWhitespace c \<longleftrightarrow> c \<in> {CHR '' '', CHR 0x09, CHR 0x0A, CHR 0x0B, CHR 0x0C, CHR 0x0D}"

definition isDigit :: "char \<Rightarrow> bool" where
  "isDigit c \<longleftrightarrow> c \<in> set ''0123456789''"

definition trim :: "string \<Rightarrow> string" where
  "trim s = rev (dropWhile isWhitespace (rev (dropWhile isWhitespace s)))"

fun replace_first_comma :: "string \<Rightarrow> string" where
  "replace_first_comma [] = []"
| "replace_first_comma (c # cs) = (if c = CHR '','' then CHR ''.'' # cs else c # replace_first_comma cs)"

definition digits_value :: "string \<Rightarrow> nat" where
  "digits_value ds = foldl (\<lambda>n c. 10 * n + (of_char c - 48)) 0 ds"

definition Number_js :: "string \<Rightarrow> real option" where
  "Number_js s =
     (let t = trim s;
          negative = (t \<noteq> [] \<and> hd t = CHR ''-'');
          body = (if t \<noteq> [] \<and> (hd t = CHR ''-'' \<or> hd t = CHR ''+'') then tl t else t);
          ip = takeWhile isDigit body;
          r = dropWhile isDigit body;
          fp = (if r \<noteq> [] \<and> hd r = CHR ''.'' then tl r else r);
          magnitude = real (digits_value ip) + real (digits_value fp) / 10 ^ length fp
      in if t = [] then Some 0
         else if list_all isDigit fp \<and> (ip \<noteq> [] \<or> fp \<noteq> [])
         then Some (if negative then - magnitude else magnitude)
         else None)"

definition parseNumber :: "string option \<Rightarrow> real" where
  "parseNumber v =
     (case v of
        None \<Rightarrow> 0
      | Some s \<Rightarrow>
          let normalized = replace_first_comma (filter (\<lambda>c. \<not> isWhitespace c) (trim s))
          in (case Number_js normalized of Some parsed \<Rightarrow> parsed | None \<Rightarrow> 0))"

subsection \<open>Legacy price table importer\<close>

text \<open>
  The pattern of a numeric token is an optional minus sign, digits, and optionally a dot or a
  comma followed by digits. \<open>match_token\<close> matches it at the start of a string and returns
  the token with the rest of the string; \<open>numericTokensForLine\<close> collects the matches from
  left to right, as a global match does.
\<close>

definition match_token :: "string \<Rightarrow> (string \<times> string) option" where
  "match_token s =
     (let sign = (if s \<noteq> [] \<and> hd s = CHR ''-'' then [CHR ''-''] else []);
          s1 = (if s \<noteq> [] \<and> hd s = CHR ''-'' then tl s else s);
          ds = takeWhile isDigit s1;
          s2 = dropWhile isDigit s1
      in if ds = [] then None
         else if s2 \<noteq> [] \<and> (hd s2 = CHR ''.'' \<or> hd s2 = CHR '','')
                 \<and> takeWhile isDigit (tl s2) \<noteq> []
         then Some (sign @ ds @ [hd s2] @ takeWhile isDigit (tl s2), dropWhile isDigit (tl s2))
         else Some (sign @ ds, s2))"

lemma match_token_shorter: "match_token s = Some (tok, rest) \<Longrightarrow> length rest < length s"
proof -
  have d: "\<And>xs. length (dropWhile isDigit xs) \<le> length xs" by (rule length_dropWhile_le)
  have t: "\<And>xs. takeWhile isDigit xs \<noteq> [] \<Longrightarrow> length (dropWhile isDigit xs) < length xs"
  proof -
    fix xs :: string assume "takeWhile isDigit xs \<noteq> []"
    then have "length (takeWhile isDigit xs) > 0" by simp
    moreover have "length (takeWhile isDigit xs) + length (dropWhile isDigit xs) = length xs"
      by (metis length_append takeWhile_dropWhile_id)
    ultimately show "length (dropWhile isDigit xs) < length xs" by linarith
  qed
  assume m: "match_token s = Some (tok, rest)"
  let ?s1 = "if s \<noteq> [] \<and> hd s = CHR ''-'' then tl s else s"
  let ?s2 = "dropWhile isDigit ?s1"
  have s1: "length ?s1 \<le> length s" by simp
  from m have ne: "takeWhile isDigit ?s1 \<noteq> []"
    by (auto simp: match_token_def Let_def split: if_splits)
  then have s2: "length ?s2 < length ?s1" by (rule t)
  from m have "rest = ?s2 \<or> rest = dropWhile isDigit (tl ?s2)"
    by (auto simp: match_token_def Let_def split: if_splits)
  moreover have "length (dropWhile isDigit (tl ?s2)) \<le> length ?s2"
    using d[of "tl ?s2"] by simp
  ultimately show ?thesis using s1 s2 by auto
qed

function numericTokensForLine :: "string \<Rightarrow> string list" where
  "numericTokensForLine [] = []"
| "numericTokensForLine (c # cs) =
     (case match_token (c # cs) of
        None \<Rightarrow> numericTokensForLine cs
      | Some (tok, rest) \<Rightarrow> tok # numericTokensForLine rest)"
  by pat_completeness auto
termination
  by (relation "measure length") (auto dest: match_token_shorter)

text \<open>Splitting at \<^verbatim>\<open>/\r?\n/\<close>: a line ends at a line feed, and a carriage return
  right before the line feed belongs to the separator.\<close>

fun split_lines_acc :: "string \<Rightarrow> string \<Rightarrow> string list" where
  "split_lines_acc cur [] = [cur]"
| "split_lines_acc cur [c] = (if c = CHR 0x0A then [cur, []] else [cur @ [c]])"
| "split_lines_acc cur (c # d # cs) =
     (if c = CHR 0x0A then cur # split_lines_acc [] (d # cs)
      else if c = CHR 0x0D \<and> d = CHR 0x0A then cur # split_lines_acc [] cs
      else split_lines_acc (cur @ [c]) (d # cs))"

definition split_lines :: "string \<Rightarrow> string list" where
  "split_lines s = split_lines_acc [] s"

fun findIndex_from :: "nat \<Rightarrow> ('a \<Rightarrow> bool) \<Rightarrow> 'a list \<Rightarrow> nat option" where
  "findIndex_from i p [] = None"
| "findIndex_from i p (x # xs) = (if p x then Some i else findIndex_from (Suc i) p xs)"

definition findIndex :: "('a \<Rightarrow> bool) \<Rightarrow> 'a list \<Rightarrow> nat option" where
  "findIndex p xs = findIndex_from 0 p xs"

text \<open>The state of one import pass: the copy \<^verbatim>\<open>next\<close> of the price table, the set
  \<^verbatim>\<open>assigned\<close>, the cursor \<^verbatim>\<open>fallbackIndex\<close> and the flag
  \<^verbatim>\<open>updated\<close>. An index is a natural number; the value \<open>-1\<close> of
  \<^verbatim>\<open>matchedIndex\<close> (no match) is \<open>None\<close>.\<close>

record BulkState =
  next_entries :: "LegacyPriceEntry list"
  assigned :: "nat set"
  fallbackIndex :: nat
  updated :: bool

definition attemptAssign :: "BulkState \<Rightarrow> nat \<Rightarrow> string option \<Rightarrow> BulkState" where
  "attemptAssign st index priceToken =
     (case priceToken of
        None \<Rightarrow> st
      | Some tok \<Rightarrow>
          if index \<ge> length (next_entries st) \<or> tok = [] then st
          else
            let priceValue = parseNumber (Some tok)
            in if priceValue > 0
               then st\<lparr>next_entries :=
                          (next_entries st)[index := (next_entries st ! index)\<lparr>price := priceValue\<rparr>],
                        assigned := insert index (assigned st),
                        updated := True\<rparr>
               else st)"

text \<open>The first token with a strictly positive value within \<open>1/1000000\<close> of a breakpoint:
  the index of the breakpoint and the value of the token.\<close>

fun find_matched :: "string list \<Rightarrow> (nat \<times> real) option" where
  "find_matched [] = None"
| "find_matched (token # rest) =
     (let v = parseNumber (Some token)
      in if v \<le> 0 then find_matched rest
         else (case findIndex (\<lambda>volume. \<bar>volume - v\<bar> < 1 / 1000000) LEGACY_AVERAGE_VOLUMES of
                 Some volumeIndex \<Rightarrow> Some (volumeIndex, v)
               | None \<Rightarrow> find_matched rest))"

function skip_assigned :: "nat \<Rightarrow> nat set \<Rightarrow> nat \<Rightarrow> nat" where
  "skip_assigned n asg i = (if i < n \<and> i \<in> asg then skip_assigned n asg (i + 1) else i)"
  by pat_completeness auto
termination
  by (relation "measure (\<lambda>(n, asg, i). n - i)") auto

declare skip_assigned.simps [simp del]

definition differs_from :: "real option \<Rightarrow> real \<Rightarrow> bool" where
  "differs_from matchedVolume v =
     (case matchedVolume of None \<Rightarrow> True | Some mv \<Rightarrow> \<bar>v - mv\<bar> > 1 / 1000000)"

definition first_price_token :: "real option \<Rightarrow> string list \<Rightarrow> string" where
  "first_price_token matchedVolume tokens =
     (case find (\<lambda>token. differs_from matchedVolume (parseNumber (Some token))) tokens of
        Some token \<Rightarrow> token
      | None \<Rightarrow> last tokens)"

definition reassign_price_token :: "real option \<Rightarrow> string list \<Rightarrow> string \<Rightarrow> string" where
  "reassign_price_token matchedVolume tokens priceToken =
     (case find (\<lambda>token. parseNumber (Some token) > 0
                   \<and> (matchedVolume = None \<or> matchedVolume = Some 0
                        \<or> differs_from matchedVolume (parseNumber (Some token)))) tokens of
        Some token \<Rightarrow> token
      | None \<Rightarrow> priceToken)"

definition assign_line ::
  "BulkState \<Rightarrow> string list \<Rightarrow> nat \<Rightarrow> real option \<Rightarrow> string \<Rightarrow> BulkState" where
  "assign_line st tokens matchedIndex matchedVolume priceToken =
     attemptAssign st matchedIndex
       (Some (if matchedIndex \<in> assigned st
              then reassign_price_token matchedVolume tokens priceToken
              else priceToken))"

definition process_line :: "BulkState \<Rightarrow> string \<Rightarrow> BulkState" where
  "process_line st rawLine =
     (let line = trim rawLine
      in if line = [] then st
         else
           let tokens = numericTokensForLine line
           in if tokens = [] then st
              else (case find_matched tokens of
                      Some (matchedIndex, matchedVolume) \<Rightarrow>
                        assign_line st tokens matchedIndex (Some matchedVolume)
                          (first_price_token (Some matchedVolume) tokens)
                    | None \<Rightarrow>
                        let cursor = skip_assigned (length (next_entries st)) (assigned st)
                                       (fallbackIndex st)
                        in if cursor \<ge> length (next_entries st) then st\<lparr>fallbackIndex := cursor\<rparr>
                           else assign_line (st\<lparr>fallbackIndex := cursor + 1\<rparr>) tokens cursor None
                                  (last tokens)))"

definition initial_pass :: "LegacyPriceEntry list \<Rightarrow> BulkState" where
  "initial_pass previous =
     \<lparr>next_entries = previous, assigned = {}, fallbackIndex = 0, updated = False\<rparr>"

text \<open>
  \<^verbatim>\<open>applyBulkPricing\<close> of \<^verbatim>\<open>part_000\<close>. The pass over the lines is the
  function handed to \<^verbatim>\<open>setLegacyPrices\<close>; the flag \<^verbatim>\<open>updated\<close> is set
  inside that function, and \<^verbatim>\<open>return updated\<close> comes right after the call. React runs
  such a function at the call only while the component has no pending work; after an earlier
  state update it queues the function and runs it when the component renders, which is after
  the return. The argument \<open>queued\<close> says which of the two happens: when it is set, the flag
  is returned as it was initialised. The result is the flag as it is returned, and the price
  table once the function has run.
\<close>

definition bulk_pass :: "LegacyPriceEntry list \<Rightarrow> string \<Rightarrow> BulkState" where
  "bulk_pass previous pasted =
     foldl process_line (initial_pass previous) (split_lines (trim pasted))"

definition applyBulkPricing ::
  "bool \<Rightarrow> LegacyPriceEntry list \<Rightarrow> string \<Rightarrow> bool \<times> LegacyPriceEntry list" where
  "applyBulkPricing queued previous pasted =
     (if trim pasted = [] then (False, previous)
      else (if queued then False else updated (bulk_pass previous pasted),
            next_entries (bulk_pass previous pasted)))"

record PasteState =
  legacyPrices :: "LegacyPriceEntry list"
  bulkPriceText :: string
  showBulkPaste :: bool

text \<open>
  The two callers of \<^verbatim>\<open>part_000\<close>. The button that calls
  \<^verbatim>\<open>handleApplyBulkPricing\<close> is shown only once the panel has been opened and a text
  typed, both of which are state updates of the component.
  \<^verbatim>\<open>handlePastePrices\<close> reads the clipboard: \<open>None\<close> when it cannot be read.
\<close>

definition handleApplyBulkPricing :: "bool \<Rightarrow> PasteState \<Rightarrow> PasteState" where
  "handleApplyBulkPricing queued st =
     (let (success, prices) = applyBulkPricing queued (legacyPrices st) (bulkPriceText st);
          st' = st\<lparr>legacyPrices := prices\<rparr>
      in if success then st'\<lparr>bulkPriceText := [], showBulkPaste := False\<rparr> else st')"

definition handlePastePrices :: "bool \<Rightarrow> string option \<Rightarrow> PasteState \<Rightarrow> PasteState" where
  "handlePastePrices queued clipboard st =
     (case clipboard of
        None \<Rightarrow> st\<lparr>showBulkPaste := True\<rparr>
      | Some clipboardText \<Rightarrow>
          let (success, prices) = applyBulkPricing queued (legacyPrices st) clipboardText;
              st' = st\<lparr>legacyPrices := prices\<rparr>
          in if success then st'\<lparr>bulkPriceText := [], showBulkPaste := False\<rparr>
             else st'\<lparr>bulkPriceText := clipboardText, showBulkPaste := True\<rparr>)"

text \<open>
  \<^verbatim>\<open>handleApplyBulkPricing\<close> of \<^verbatim>\<open>src/src/App.tsx\<close>: the same pass over the
  lines of the text as it stands, with no flag. A blank text only closes the panel; for any
  other text the text is cleared and the panel closed, whatever the pass did.
\<close>

definition App_handleApplyBulkPricing :: "PasteState \<Rightarrow> PasteState" where
  "App_handleApplyBulkPricing st =
     (if trim (bulkPriceText st) = [] then st\<lparr>showBulkPaste := False\<rparr>
      else st\<lparr>legacyPrices :=
                 next_entries (foldl process_line (initial_pass (legacyPrices st))
                                 (split_lines (bulkPriceText st))),
               bulkPriceText := [], showBulkPaste := False\<rparr>)"

subsection \<open>Loading files\<close>

text \<open>
  \<^verbatim>\<open>parseHPRFile\<close> reads a document through the XML parser of the platform; it is a
  parameter here: the stems and the number of logs of a file, or \<open>None\<close> when parsing
  throws.
\<close>

datatype StatusInfo = FilesSelected nat | Parsed nat nat | NoStems

record UploadState =
  up_stems :: "Stem list"
  up_totalLogCount :: nat
  up_statusInfo :: "StatusInfo option"
  up_hasUploaded :: bool
  up_shouldAppend :: bool

fun parse_files ::
  "('f \<Rightarrow> (Stem list \<times> nat) option) \<Rightarrow> Stem list \<times> nat \<Rightarrow> 'f list \<Rightarrow> Stem list \<times> nat" where
  "parse_files parseHPRFile acc [] = acc"
| "parse_files parseHPRFile (combinedStems, combinedLogCount) (file # rest) =
     (case parseHPRFile file of
        Some (fileStems, logCount) \<Rightarrow>
          parse_files parseHPRFile (combinedStems @ fileStems, combinedLogCount + logCount) rest
      | None \<Rightarrow> parse_files parseHPRFile (combinedStems, combinedLogCount) rest)"

text \<open>\<^verbatim>\<open>processFiles\<close> of \<^verbatim>\<open>part_000\<close>, with its option \<^verbatim>\<open>append\<close> (here \<open>appendOpt\<close>).\<close>

definition processFiles ::
  "('f \<Rightarrow> (Stem list \<times> nat) option) \<Rightarrow> UploadState \<Rightarrow> 'f list \<Rightarrow> bool \<Rightarrow> UploadState" where
  "processFiles parseHPRFile st selectedFiles appendOpt =
     (if selectedFiles = [] then st
      else
        let (combinedStems, combinedLogCount) =
              parse_files parseHPRFile
                (if appendOpt then up_stems st else [], if appendOpt then up_totalLogCount st else 0)
                selectedFiles;
            st' = st\<lparr>up_stems := combinedStems, up_totalLogCount := combinedLogCount\<rparr>
        in if combinedStems \<noteq> []
           then st'\<lparr>up_statusInfo := Some (Parsed (length combinedStems) combinedLogCount),
                    up_hasUploaded := True, up_shouldAppend := False\<rparr>
           else st'\<lparr>up_statusInfo := Some NoStems, up_hasUploaded := False\<rparr>)"

text \<open>\<^verbatim>\<open>processFiles\<close> of \<^verbatim>\<open>src/src/App.tsx\<close>: every call starts from an empty
  list. That copy keeps no log count in its state and shows the status as a text.\<close>

definition App_processFiles ::
  "('f \<Rightarrow> (Stem list \<times> nat) option) \<Rightarrow> UploadState \<Rightarrow> 'f list \<Rightarrow> UploadState" where
  "App_processFiles parseHPRFile st selectedFiles =
     (let (allStems, totalLogCount) = parse_files parseHPRFile ([], 0) selectedFiles;
          st' = st\<lparr>up_stems := allStems\<rparr>
      in if allStems \<noteq> []
         then st'\<lparr>up_statusInfo := Some (Parsed (length allStems) totalLogCount),
                  up_hasUploaded := True\<rparr>
         else st'\<lparr>up_statusInfo := Some NoStems, up_hasUploaded := False\<rparr>)"

text \<open>
  The handlers of \<^verbatim>\<open>part_000\<close> around \<^verbatim>\<open>processFiles\<close>: the button
  shown after a successful upload sets \<^verbatim>\<open>shouldAppend\<close> and shows the upload
  panel again; the upload passes the flag on as the option \<^verbatim>\<open>append\<close> and
  clears it. In \<^verbatim>\<open>src/src/App.tsx\<close> the button only shows the upload panel
  again, and the upload calls \<^verbatim>\<open>processFiles\<close>.
\<close>

definition handleAddMoreFiles :: "UploadState \<Rightarrow> UploadState" where
  "handleAddMoreFiles st = st\<lparr>up_shouldAppend := True, up_hasUploaded := False\<rparr>"

definition handleFileUpload ::
  "('f \<Rightarrow> (Stem list \<times> nat) option) \<Rightarrow> UploadState \<Rightarrow> 'f list \<Rightarrow> UploadState" where
  "handleFileUpload parseHPRFile st selectedFiles =
     (processFiles parseHPRFile st selectedFiles (up_shouldAppend st))\<lparr>up_shouldAppend := False\<rparr>"

text \<open>The part of \<^verbatim>\<open>handleReset\<close> of \<^verbatim>\<open>part_000\<close> that concerns the
  loaded files (it also empties the results).\<close>

definition handleReset :: "UploadState \<Rightarrow> UploadState" where
  "handleReset st =
     st\<lparr>up_stems := [], up_statusInfo := None, up_totalLogCount := 0, up_shouldAppend := False,
        up_hasUploaded := False\<rparr>"

text \<open>
  The states that the interface of \<^verbatim>\<open>part_000\<close> can reach. The card with the file
  input and the drop zone is rendered only while \<^verbatim>\<open>hasUploaded\<close> is false, the
  button for adding more files only while it is true, and a reset button in both. A change of
  the file input carries at least one file (its value is emptied after every upload), and a
  drop with no accepted file does nothing.
\<close>

inductive reachable :: "('f \<Rightarrow> (Stem list \<times> nat) option) \<Rightarrow> UploadState \<Rightarrow> bool"
  for parseHPRFile :: "'f \<Rightarrow> (Stem list \<times> nat) option" where
  start: "reachable parseHPRFile
            \<lparr>up_stems = [], up_totalLogCount = 0, up_statusInfo = None, up_hasUploaded = False,
             up_shouldAppend = False\<rparr>"
| upload: "reachable parseHPRFile st \<Longrightarrow> \<not> up_hasUploaded st \<Longrightarrow> selectedFiles \<noteq> [] \<Longrightarrow>
           reachable parseHPRFile (handleFileUpload parseHPRFile st selectedFiles)"
| add_more: "reachable parseHPRFile st \<Longrightarrow> up_hasUploaded st \<Longrightarrow>
             reachable parseHPRFile (handleAddMoreFiles st)"
| reset: "reachable parseHPRFile st \<Longrightarrow> reachable parseHPRFile (handleReset st)"

definition App_uploadAnother :: "UploadState \<Rightarrow> UploadState" where
  "App_uploadAnother st = st\<lparr>up_hasUploaded := False\<rparr>"

definition App_handleFileUpload ::
  "('f \<Rightarrow> (Stem list \<times> nat) option) \<Rightarrow> UploadState \<Rightarrow> 'f list \<Rightarrow> UploadState" where
  "App_handleFileUpload parseHPRFile st selectedFiles = App_processFiles parseHPRFile st selectedFiles"

subsection \<open>Notions used in the statements\<close>

text \<open>A stem has a diameter class when \<^verbatim>\<open>resolveDbhClass\<close> does not return
  \<^verbatim>\<open>null\<close>; the members of the bin of a species and a class are the stems of that
  species that resolve to that class, in the order of the dataset.\<close>

definition has_dbh_class :: "Stem \<Rightarrow> bool" where
  "has_dbh_class stem \<longleftrightarrow> resolveDbhClass (dbh stem) \<noteq> None"

definition bin_members :: "SpeciesCategory \<Rightarrow> real \<Rightarrow> Stem list \<Rightarrow> Stem list" where
  "bin_members sp cls stem_list =
     filter (\<lambda>stem. speciesCategory stem = sp \<and> resolveDbhClass (dbh stem) = Some cls) stem_list"

text \<open>The bin that the aggregate is to hold for a species and a class, and the rows of a run
  before the final sort: one row for each bin, species by species in the order of
  \<^verbatim>\<open>SUPPORTED_SPECIES\<close>.\<close>

definition expected_bin :: "real \<Rightarrow> SpeciesCategory \<Rightarrow> real \<Rightarrow> Stem list \<Rightarrow> AggBin" where
  "expected_bin perStemTime sp cls stem_list =
     \<lparr>bin_stems = bin_members sp cls stem_list,
      bin_totalTime = real (length (bin_members sp cls stem_list)) * perStemTime,
      bin_totalVolume = sum_list (map stem_volume (bin_members sp cls stem_list))\<rparr>"

definition all_rows :: "CalculationParams \<Rightarrow> SpeciesDivisors \<Rightarrow> Stem list \<Rightarrow> ResultRow list" where
  "all_rows P D xs =
     concat (map (species_rows P D (foldl (aggregate_stem (min (maxPerTreeTime P) 30)) (\<lambda>_. []) xs))
       SUPPORTED_SPECIES)"

text \<open>The records that a file contributes to a batch: those of its parse, or none when
  parsing throws.\<close>

definition file_stems :: "('f \<Rightarrow> (Stem list \<times> nat) option) \<Rightarrow> 'f \<Rightarrow> Stem list" where
  "file_stems parseHPRFile file = (case parseHPRFile file of Some (fileStems, _) \<Rightarrow> fileStems | None \<Rightarrow> [])"

text \<open>
  What holds of the state of an import pass that started from the table \<open>previous\<close>, after
  any number of lines: the flag is set exactly when some index is assigned, every assigned
  index holds a strictly positive price, as long as nothing is assigned the table is the one
  the pass started from, and the breakpoints never change.
\<close>

definition pass_inv :: "LegacyPriceEntry list \<Rightarrow> BulkState \<Rightarrow> bool" where
  "pass_inv previous st \<longleftrightarrow>
     (updated st \<longleftrightarrow> assigned st \<noteq> {})
     \<and> (\<forall>i\<in>assigned st. i < length (next_entries st) \<and> 0 < price (next_entries st ! i))
     \<and> (assigned st = {} \<longrightarrow> next_entries st = previous)
     \<and> map averageVolume (next_entries st) = map averageVolume previous"

text \<open>
  A line of a pasted column of prices: exactly one numeric token, whose value \<open>v\<close> is
  strictly positive and more than \<open>1/1000000\<close> away from every breakpoint. After such lines with the
  values \<open>vs\<close>, a pass that started from \<open>previous\<close> has assigned the first indices, one
  for each line as far as the table reaches, and holds the values as their prices.
\<close>

definition positional_value :: "string \<Rightarrow> real \<Rightarrow> bool" where
  "positional_value l v \<longleftrightarrow>
     (\<exists>tok. numericTokensForLine (trim l) = [tok] \<and> v = parseNumber (Some tok) \<and> 0 < v
        \<and> (\<forall>b\<in>set LEGACY_AVERAGE_VOLUMES. 1 / 1000000 < \<bar>b - v\<bar>))"

definition positional_inv :: "LegacyPriceEntry list \<Rightarrow> real list \<Rightarrow> BulkState \<Rightarrow> bool" where
  "positional_inv previous vs st \<longleftrightarrow>
     fallbackIndex st = min (length vs) (length previous)
     \<and> assigned st = {0..<min (length vs) (length previous)}
     \<and> length (next_entries st) = length previous
     \<and> (\<forall>k<length previous.
           next_entries st ! k =
             (if k < length vs then (previous ! k)\<lparr>price := vs ! k\<rparr> else previous ! k))"

subsection \<open>Initial state and an example dataset\<close>

text \<open>
  The default divisor table of \<^verbatim>\<open>src/src/App.tsx\<close>, where the five largest
  classes of the broadleaf category have no divisor (in \<^verbatim>\<open>part_000\<close> these five
  entries are 41), and the initial parameters and price table of the component.
\<close>

definition DEFAULT_SPECIES_DIVISORS :: SpeciesDivisors where
  "DEFAULT_SPECIES_DIVISORS sp =
     (case sp of
        Tall \<Rightarrow> map Some [2.5, 3.8, 6.2, 9.2, 12.7, 16.8, 21.1, 25.3, 29.6, 33.8, 38.1, 42, 46.6,
                  49.7, 53.4, 55.4, 57.2, 56.9, 60.1, 57.6, 54.7, 57.8, 54.8, 54, 57, 57.8]
      | Gran \<Rightarrow> map Some [3.4, 5.1, 7.6, 10.7, 14.1, 17.8, 21.8, 25.7, 30.3, 34.7, 38.9, 43.2, 47,
                  49.5, 51.8, 53.1, 54.1, 53.9, 54.2, 52.7, 52.6, 51.8, 50.4, 54.1, 48.4, 46.8]
      | Lov \<Rightarrow> map Some [2.8, 4.1, 6.1, 8.3, 11.1, 14, 16.7, 20.6, 23.2, 26.2, 28.3, 31, 33.9,
                  34.1, 36.1, 38.9, 39.6, 38.3, 39, 42.4, 41] @ [None, None, None, None, None])"

definition initial_params :: CalculationParams where
  "initial_params =
     \<lparr>maxPerTreeTime = 600, harvestingCostRate = 1800, forwardingSK = 1500,
      skiddingDistanceSA = 300, standRemovalUT = 280, k1 = 1, k2 = 0.73, c11 = 11.45\<rparr>"

definition initial_legacyPrices :: "LegacyPriceEntry list" where
  "initial_legacyPrices = map (\<lambda>v. \<lparr>averageVolume = v, price = 0\<rparr>) LEGACY_AVERAGE_VOLUMES"

text \<open>Example stems carry the category that \<^verbatim>\<open>parseHPRFile\<close> gives them: the
  one of their species name.\<close>

definition example_stem :: "string \<Rightarrow> string \<Rightarrow> real \<Rightarrow> jsnumber option \<Rightarrow> Stem" where
  "example_stem key name volume d =
     \<lparr>stem_key = key, harvest_date = ''2024-01-01'', stem_volume = volume, dbh = d,
      speciesGroupKey = Some ''1'', speciesName = Some name,
      speciesCategory = mapSpeciesNameToCategory (Some name)\<rparr>"

definition example_dataset :: "Stem list" where
  "example_dataset =
     [example_stem ''stem_0'' ''Spruce'' 0.8 (Some (Finite 150)),
      example_stem ''stem_1'' ''Birch'' 1.5 (Some (Finite 700)),
      example_stem ''stem_2'' ''Gran'' 0.4 (Some (Finite 155)),
      example_stem ''stem_3'' ''Pine'' 0.3 None,
      example_stem ''stem_4'' ''Pine'' 0.25 (Some (Finite 80))]"

text \<open>The state of the loader before any file is loaded, and a parser for three example
  files, of which the third cannot be parsed.\<close>

definition initial_upload :: UploadState where
  "initial_upload =
     \<lparr>up_stems = [], up_totalLogCount = 0, up_statusInfo = None, up_hasUploaded = False,
      up_shouldAppend = False\<rparr>"

definition example_parse :: "nat \<Rightarrow> (Stem list \<times> nat) option" where
  "example_parse file =
     (if file = 0 then Some ([example_stem ''stem_0'' ''Spruce'' 0.8 (Some (Finite 150))], 2)
      else if file = 1 then Some ([example_stem ''stem_0'' ''Pine'' 0.3 None], 1)
      else None)"

section \<open>Properties\<close>

subsection \<open>Maps and thresholds\<close>

lemma map_get_map_set: "map_get (map_set m k v) k' = (if k' = k then Some v else map_get m k')"
  by (induction m) auto

lemma keys_map_set: "fst ` set (map_set m k v) = insert k (fst ` set m)"
  by (induction m) force+

lemma distinct_map_set: "distinct (map fst m) \<Longrightarrow> distinct (map fst (map_set m k v))"
proof (induction m)
  case Nil
  then show ?case by simp
next
  case (Cons a m)
  obtain k' v' where a: "a = (k', v')" by (cases a)
  show ?case
  proof (cases "k' = k")
    case True
    with Cons.prems a show ?thesis by simp
  next
    case False
    have "k' \<notin> fst ` set (map_set m k v)"
      using Cons.prems a False by (simp add: keys_map_set)
    with Cons a False show ?thesis by simp
  qed
qed

lemma map_get_None_iff: "map_get m k = None \<longleftrightarrow> k \<notin> fst ` set m"
  by (induction m) force+

lemma first_threshold_Some: "first_threshold d ts = Some t \<Longrightarrow> t \<in> set ts \<and> d \<le> t"
  by (induction ts) (auto split: if_splits)

lemma first_threshold_None: "first_threshold d ts = None \<longleftrightarrow> (\<forall>t \<in> set ts. t < d)"
  by (induction ts) (auto split: if_splits)

lemma first_threshold_least:
  "sorted ts \<Longrightarrow> first_threshold d ts = Some t \<Longrightarrow> t' \<in> set ts \<Longrightarrow> d \<le> t' \<Longrightarrow> t \<le> t'"
  by (induction ts) (auto split: if_splits)

lemma last_DBH_CLASSES: "last DBH_CLASSES = 580"
  by (simp add: DBH_CLASSES_def)

lemma resolveDbhClass_in_classes: "resolveDbhClass d = Some c \<Longrightarrow> c \<in> set DBH_CLASSES"
  unfolding resolveDbhClass_def
  by (auto split: option.splits jsnumber.splits if_splits dest: first_threshold_Some)

lemma zero_notin_DBH_CLASSES: "0 \<notin> set DBH_CLASSES"
  by (simp add: DBH_CLASSES_def)

lemma resolveDbhClass_nonzero: "resolveDbhClass d = Some c \<Longrightarrow> c \<noteq> 0"
  using resolveDbhClass_in_classes zero_notin_DBH_CLASSES by metis

subsection \<open>The aggregate after a run over the dataset\<close>

lemma bin_members_snoc:
  "bin_members sp cls (xs @ [x]) =
     (if speciesCategory x = sp \<and> resolveDbhClass (dbh x) = Some cls
      then bin_members sp cls xs @ [x] else bin_members sp cls xs)"
  by (simp add: bin_members_def)

lemma expected_bin_snoc_other:
  "\<not> (speciesCategory x = sp \<and> resolveDbhClass (dbh x) = Some cls) \<Longrightarrow>
   expected_bin p sp cls (xs @ [x]) = expected_bin p sp cls xs"
  by (simp add: expected_bin_def bin_members_snoc)

lemma expected_bin_snoc_same:
  assumes "speciesCategory x = sp" "resolveDbhClass (dbh x) = Some cls"
  shows "expected_bin p sp cls (xs @ [x]) =
     \<lparr>bin_stems = bin_stems (expected_bin p sp cls xs) @ [x],
      bin_totalTime = bin_totalTime (expected_bin p sp cls xs) + p,
      bin_totalVolume = bin_totalVolume (expected_bin p sp cls xs) + stem_volume x\<rparr>"
  using assms by (simp add: expected_bin_def bin_members_snoc algebra_simps)

lemma expected_bin_empty:
  "bin_members sp cls xs = [] \<Longrightarrow>
   expected_bin p sp cls xs = \<lparr>bin_stems = [], bin_totalTime = 0, bin_totalVolume = 0\<rparr>"
  by (simp add: expected_bin_def)

lemma aggregate_stem_None:
  "resolveDbhClass (dbh x) = None \<Longrightarrow> aggregate_stem p a x = a"
  by (simp add: aggregate_stem_def)

lemma aggregate_stem_Some:
  assumes "resolveDbhClass (dbh x) = Some c"
  shows "aggregate_stem p a x =
     a(speciesCategory x := map_set (a (speciesCategory x)) c
        \<lparr>bin_stems = bin_stems (case map_get (a (speciesCategory x)) c of Some b \<Rightarrow> b
                 | None \<Rightarrow> \<lparr>bin_stems = [], bin_totalTime = 0, bin_totalVolume = 0\<rparr>) @ [x],
         bin_totalTime = bin_totalTime (case map_get (a (speciesCategory x)) c of Some b \<Rightarrow> b
                 | None \<Rightarrow> \<lparr>bin_stems = [], bin_totalTime = 0, bin_totalVolume = 0\<rparr>) + p,
         bin_totalVolume = bin_totalVolume (case map_get (a (speciesCategory x)) c of Some b \<Rightarrow> b
                 | None \<Rightarrow> \<lparr>bin_stems = [], bin_totalTime = 0, bin_totalVolume = 0\<rparr>)
             + stem_volume x\<rparr>)"
  using assms resolveDbhClass_nonzero[OF assms] by (simp add: aggregate_stem_def Let_def)

lemma aggregate_fold_inv:
  "distinct (map fst (foldl (aggregate_stem p) (\<lambda>_. []) xs sp)) \<and>
   map_get (foldl (aggregate_stem p) (\<lambda>_. []) xs sp) cls =
     (if bin_members sp cls xs = [] then None else Some (expected_bin p sp cls xs))"
proof (induction xs arbitrary: sp cls rule: rev_induct)
  case Nil
  show ?case by (simp add: bin_members_def)
next
  case (snoc x xs)
  let ?agg = "foldl (aggregate_stem p) (\<lambda>_. []) xs"
  have IHd: "\<And>s. distinct (map fst (?agg s))" using snoc by blast
  have IHg: "\<And>s c. map_get (?agg s) c =
     (if bin_members s c xs = [] then None else Some (expected_bin p s c xs))" using snoc by blast
  show ?case
  proof (cases "resolveDbhClass (dbh x)")
    case None
    then show ?thesis
      using IHd IHg by (simp add: aggregate_stem_None bin_members_snoc expected_bin_snoc_other)
  next
    case (Some c)
    then have c0: "c \<noteq> 0" by (rule resolveDbhClass_nonzero)
    let ?s = "speciesCategory x"
    let ?cur = "case map_get (?agg ?s) c of Some b \<Rightarrow> b
                 | None \<Rightarrow> \<lparr>bin_stems = [], bin_totalTime = 0, bin_totalVolume = 0\<rparr>"
    have cur: "?cur = expected_bin p ?s c xs"
      by (simp add: IHg expected_bin_empty)
    have step: "aggregate_stem p ?agg x =
      ?agg(?s := map_set (?agg ?s) c
         \<lparr>bin_stems = bin_stems ?cur @ [x], bin_totalTime = bin_totalTime ?cur + p,
          bin_totalVolume = bin_totalVolume ?cur + stem_volume x\<rparr>)"
      using Some by (rule aggregate_stem_Some)
    have new: "\<lparr>bin_stems = bin_stems ?cur @ [x], bin_totalTime = bin_totalTime ?cur + p,
          bin_totalVolume = bin_totalVolume ?cur + stem_volume x\<rparr> = expected_bin p ?s c (xs @ [x])"
      unfolding cur using Some by (simp add: expected_bin_snoc_same)
    have ne: "bin_members ?s c (xs @ [x]) \<noteq> []"
      using Some by (simp add: bin_members_snoc)
    show ?thesis
    proof (cases "sp = ?s")
      case False
      then have "speciesCategory x \<noteq> sp" by simp
      then show ?thesis
        using IHd IHg False by (simp add: step bin_members_snoc expected_bin_snoc_other)
    next
      case True
      show ?thesis
      proof (cases "cls = c")
        case True
        with \<open>sp = ?s\<close> ne show ?thesis
          by (simp add: step new map_get_map_set distinct_map_set IHd)
      next
        case False
        then have "resolveDbhClass (dbh x) \<noteq> Some cls" using Some by simp
        then show ?thesis
          using \<open>sp = ?s\<close> False IHd IHg
          by (simp add: step new map_get_map_set distinct_map_set bin_members_snoc
                expected_bin_snoc_other)
      qed
    qed
  qed
qed

lemma map_filter_all_Some:
  "(\<And>x. x \<in> set xs \<Longrightarrow> f x = Some (g x)) \<Longrightarrow> List.map_filter f xs = map g xs"
  by (induction xs) simp_all

lemma agg_keys:
  "fst ` set (foldl (aggregate_stem p) (\<lambda>_. []) xs sp) = {c. bin_members sp c xs \<noteq> []}"
proof -
  have "\<And>c. c \<notin> fst ` set (foldl (aggregate_stem p) (\<lambda>_. []) xs sp) \<longleftrightarrow> bin_members sp c xs = []"
    using aggregate_fold_inv[of p xs sp] by (simp add: map_get_None_iff[symmetric])
  then show ?thesis by blast
qed

lemma species_rows_fold:
  "species_rows P D (foldl (aggregate_stem p) (\<lambda>_. []) xs) sp =
     map (\<lambda>c. bin_row P D sp c (expected_bin p sp c xs))
       (sort (map fst (foldl (aggregate_stem p) (\<lambda>_. []) xs sp)))"
proof -
  let ?agg = "foldl (aggregate_stem p) (\<lambda>_. []) xs"
  have "\<And>c. c \<in> set (sort (map fst (?agg sp))) \<Longrightarrow>
          (case map_get (?agg sp) c of None \<Rightarrow> None
           | Some data \<Rightarrow> Some (bin_row P D sp c data)) = Some (bin_row P D sp c (expected_bin p sp c xs))"
  proof -
    fix c assume "c \<in> set (sort (map fst (?agg sp)))"
    then have "c \<in> fst ` set (?agg sp)" by simp
    then have "bin_members sp c xs \<noteq> []" by (simp add: agg_keys)
    then show "(case map_get (?agg sp) c of None \<Rightarrow> None
           | Some data \<Rightarrow> Some (bin_row P D sp c data)) = Some (bin_row P D sp c (expected_bin p sp c xs))"
      using aggregate_fold_inv[of p xs sp c] by simp
  qed
  then show ?thesis
    unfolding species_rows_def Let_def by (rule map_filter_all_Some)
qed

lemma sum_over_classes:
  fixes w :: "Stem \<Rightarrow> 'a::comm_monoid_add"
  assumes "finite K"
  shows "(\<Sum>c\<in>K. sum_list (map w (bin_members sp c xs))) =
         sum_list (map w (filter (\<lambda>x. speciesCategory x = sp \<and> resolveDbhClass (dbh x) \<in> Some ` K) xs))"
proof (induction xs)
  case Nil
  show ?case by (simp add: bin_members_def)
next
  case (Cons x xs)
  have split: "\<And>c. sum_list (map w (bin_members sp c (x # xs))) =
      (if Some c = (if speciesCategory x = sp then resolveDbhClass (dbh x) else None) then w x else 0)
        + sum_list (map w (bin_members sp c xs))"
    by (auto simp add: bin_members_def)
  have delta: "(\<Sum>c\<in>K. if Some c = (if speciesCategory x = sp then resolveDbhClass (dbh x) else None) then w x else 0)
      = (if speciesCategory x = sp \<and> resolveDbhClass (dbh x) \<in> Some ` K then w x else 0)"
  proof (cases "if speciesCategory x = sp then resolveDbhClass (dbh x) else None")
    case None
    then show ?thesis by (auto split: if_splits)
  next
    case (Some c0)
    then have "(\<Sum>c\<in>K. if Some c = (if speciesCategory x = sp then resolveDbhClass (dbh x) else None) then w x else 0)
        = (\<Sum>c\<in>K. if c0 = c then w x else 0)"
      by (intro sum.cong) auto
    also have "\<dots> = (if c0 \<in> K then w x else 0)"
      using assms by simp
    finally show ?thesis using Some by (auto split: if_splits)
  qed
  show ?case
    unfolding split sum.distrib delta Cons.IH by simp
qed

lemma sum_species_rows:
  fixes w :: "Stem \<Rightarrow> 'a::comm_monoid_add"
  shows "sum_list (map (\<lambda>c. sum_list (map w (bin_members sp c xs)))
          (sort (map fst (foldl (aggregate_stem p) (\<lambda>_. []) xs sp)))) =
         sum_list (map w (filter (\<lambda>x. speciesCategory x = sp \<and> has_dbh_class x) xs))"
proof -
  let ?ks = "sort (map fst (foldl (aggregate_stem p) (\<lambda>_. []) xs sp))"
  let ?K = "{c. bin_members sp c xs \<noteq> []}"
  have d: "distinct ?ks" using aggregate_fold_inv[of p xs sp] by simp
  have s: "set ?ks = ?K" using agg_keys[of p xs sp] by simp
  have fin: "finite ?K" using s[symmetric] by simp
  have "sum_list (map (\<lambda>c. sum_list (map w (bin_members sp c xs))) ?ks)
       = (\<Sum>c\<in>?K. sum_list (map w (bin_members sp c xs)))"
    using d s by (simp add: sum_list_distinct_conv_sum_set)
  also have "\<dots> = sum_list (map w (filter (\<lambda>x. speciesCategory x = sp \<and> resolveDbhClass (dbh x) \<in> Some ` ?K) xs))"
    using fin by (rule sum_over_classes)
  also have "filter (\<lambda>x. speciesCategory x = sp \<and> resolveDbhClass (dbh x) \<in> Some ` ?K) xs
       = filter (\<lambda>x. speciesCategory x = sp \<and> has_dbh_class x) xs"
  proof (rule filter_cong[OF refl])
    fix x assume x: "x \<in> set xs"
    show "(speciesCategory x = sp \<and> resolveDbhClass (dbh x) \<in> Some ` ?K)
        = (speciesCategory x = sp \<and> has_dbh_class x)"
    proof (cases "resolveDbhClass (dbh x)")
      case None
      then show ?thesis by (auto simp: has_dbh_class_def)
    next
      case (Some c)
      have "speciesCategory x = sp \<Longrightarrow> x \<in> set (bin_members sp c xs)"
        using x Some by (simp add: bin_members_def)
      then have "speciesCategory x = sp \<Longrightarrow> bin_members sp c xs \<noteq> []" by auto
      then show ?thesis using Some by (auto simp: has_dbh_class_def)
    qed
  qed
  finally show ?thesis .
qed

lemma sum_three_species:
  fixes w :: "Stem \<Rightarrow> 'a::comm_monoid_add"
  shows "sum_list (map w (filter (\<lambda>x. speciesCategory x = Tall \<and> Q x) xs))
       + (sum_list (map w (filter (\<lambda>x. speciesCategory x = Gran \<and> Q x) xs))
       + sum_list (map w (filter (\<lambda>x. speciesCategory x = Lov \<and> Q x) xs)))
       = sum_list (map w (filter Q xs))"
proof (induction xs)
  case Nil
  show ?case by simp
next
  case (Cons x xs)
  then show ?case by (cases "speciesCategory x") (simp_all add: ac_simps)
qed

lemma foldl_add_sum_list:
  fixes f :: "'b \<Rightarrow> 'a::comm_monoid_add"
  shows "foldl (\<lambda>acc row. acc + f row) a rows = a + sum_list (map f rows)"
  by (induction rows arbitrary: a) (simp_all add: ac_simps)

lemma sum_list_sort_key:
  fixes f :: "'b \<Rightarrow> 'a::comm_monoid_add"
  shows "sum_list (map f (sort_key k rows)) = sum_list (map f rows)"
proof -
  have "mset (map f (sort_key k rows)) = mset (map f rows)" by simp
  then show ?thesis by (metis sum_mset_sum_list)
qed

subsection \<open>Rows and totals of a calculation run\<close>

lemma bin_row_fields:
  "species (bin_row P D sp c b) = sp"
  "dbhClass (bin_row P D sp c b) = c"
  "stems (bin_row P D sp c b) = length (bin_stems b)"
  "totalTime (bin_row P D sp c b) = bin_totalTime b"
  "totalVolume (bin_row P D sp c b) = bin_totalVolume b"
  by (simp_all add: bin_row_def Let_def)

lemma expected_bin_fields:
  "bin_stems (expected_bin p sp c xs) = bin_members sp c xs"
  "bin_totalTime (expected_bin p sp c xs) = real (length (bin_members sp c xs)) * p"
  "bin_totalVolume (expected_bin p sp c xs) = sum_list (map stem_volume (bin_members sp c xs))"
  by (simp_all add: expected_bin_def)

lemma calculateResults_None: "calculateResults P D L xs = None \<longleftrightarrow> xs = []"
  by (simp add: calculateResults_def aggregateBySpeciesAndDbh_def Let_def)

lemma calculateResults_rows:
  "calculateResults P D L xs = Some out \<Longrightarrow> out_results out = sort_key row_order (all_rows P D xs)"
  by (auto simp add: calculateResults_def aggregateBySpeciesAndDbh_def Let_def all_rows_def
        split: if_splits)

lemma calculateResults_totals:
  assumes "calculateResults P D L xs = Some out"
  shows "new_totalStems (out_newTotals out) = sum_list (map stems (out_results out))"
    and "new_totalVolume (out_newTotals out) = sum_list (map totalVolume (out_results out))"
    and "new_totalPrice (out_newTotals out) = sum_list (map totalPrice (out_results out))"
  using assms
  by (auto simp add: calculateResults_def aggregateBySpeciesAndDbh_def Let_def all_rows_def
        foldl_add_sum_list split: if_splits)

lemma set_all_rows:
  "set (all_rows P D xs) =
     {bin_row P D sp c (expected_bin (min (maxPerTreeTime P) 30) sp c xs) | sp c.
        bin_members sp c xs \<noteq> []}"
proof -
  let ?p = "min (maxPerTreeTime P) 30"
  have sp: "\<And>sp. set (species_rows P D (foldl (aggregate_stem ?p) (\<lambda>_. []) xs) sp) =
     {bin_row P D sp c (expected_bin ?p sp c xs) | c. bin_members sp c xs \<noteq> []}"
    unfolding species_rows_fold using agg_keys[of ?p xs] by auto
  have U: "set SUPPORTED_SPECIES = UNIV"
    unfolding SUPPORTED_SPECIES_def using SpeciesCategory.exhaust by auto
  have "set (all_rows P D xs) =
      (\<Union>sp\<in>UNIV. {bin_row P D sp c (expected_bin ?p sp c xs) | c. bin_members sp c xs \<noteq> []})"
    unfolding all_rows_def by (simp add: sp U)
  also have "\<dots> = {bin_row P D sp c (expected_bin ?p sp c xs) | sp c. bin_members sp c xs \<noteq> []}"
    by blast
  finally show ?thesis .
qed

lemma sum_all_rows:
  fixes w :: "Stem \<Rightarrow> 'a::comm_monoid_add"
  assumes "\<And>sp c. f (bin_row P D sp c (expected_bin (min (maxPerTreeTime P) 30) sp c xs))
             = sum_list (map w (bin_members sp c xs))"
  shows "sum_list (map f (all_rows P D xs)) = sum_list (map w (filter has_dbh_class xs))"
proof -
  let ?p = "min (maxPerTreeTime P) 30"
  have "\<And>sp. sum_list (map f (species_rows P D (foldl (aggregate_stem ?p) (\<lambda>_. []) xs) sp))
      = sum_list (map w (filter (\<lambda>x. speciesCategory x = sp \<and> has_dbh_class x) xs))"
    unfolding species_rows_fold map_map comp_def assms by (rule sum_species_rows)
  then show ?thesis
    unfolding all_rows_def SUPPORTED_SPECIES_def
    by (simp add: sum_three_species)
qed

lemma stems_sum_all_rows:
  "sum_list (map stems (all_rows P D xs)) = length (filter has_dbh_class xs)"
proof -
  have "sum_list (map stems (all_rows P D xs)) = sum_list (map (\<lambda>_. 1::nat) (filter has_dbh_class xs))"
    by (rule sum_all_rows) (simp add: bin_row_fields expected_bin_fields sum_list_triv)
  then show ?thesis by (simp add: sum_list_triv)
qed

lemma volume_sum_all_rows:
  "sum_list (map totalVolume (all_rows P D xs)) = sum_list (map stem_volume (filter has_dbh_class xs))"
  by (rule sum_all_rows) (simp add: bin_row_fields expected_bin_fields)

subsection \<open>Diameter binner\<close>

lemma first_threshold_index:
  "first_threshold d ts = Some t \<Longrightarrow>
     \<exists>i<length ts. t = ts ! i \<and> d \<le> t \<and> (\<forall>j<i. ts ! j < d)"
proof (induction ts)
  case Nil
  then show ?case by simp
next
  case (Cons a ts)
  show ?case
  proof (cases "d \<le> a")
    case True
    with Cons.prems show ?thesis by auto
  next
    case False
    with Cons.prems have "first_threshold d ts = Some t" by simp
    from Cons.IH[OF this] obtain i where i: "i < length ts" "t = ts ! i" "d \<le> t" "\<forall>j<i. ts ! j < d"
      by blast
    have "\<forall>j<Suc i. (a # ts) ! j < d"
      using i(4) False by (auto simp: less_Suc_eq_0_disj)
    with i show ?thesis by (intro exI[of _ "Suc i"]) auto
  qed
qed

lemma DBH_CLASSES_ascending: "sorted_wrt (<) DBH_CLASSES"
  by (simp add: DBH_CLASSES_def)

lemma resolveDbhClass_None_iff:
  "resolveDbhClass d = None \<longleftrightarrow>
     d = None \<or> d = Some PosInfinity \<or> d = Some NegInfinity \<or> d = Some NaN
       \<or> (\<exists>y\<le>0. d = Some (Finite y))"
proof -
  have ne: "DBH_CLASSES \<noteq> []" by (simp add: DBH_CLASSES_def)
  show ?thesis
    unfolding resolveDbhClass_def using ne
    by (auto split: option.splits jsnumber.splits)
qed

lemma resolveDbhClass_positive:
  assumes "0 < x"
  shows "\<exists>t. resolveDbhClass (Some (Finite x)) = Some t \<and>
      (if \<exists>t'\<in>set DBH_CLASSES. x \<le> t'
       then \<exists>i<length DBH_CLASSES. t = DBH_CLASSES ! i \<and> x \<le> t \<and> (\<forall>j<i. DBH_CLASSES ! j < x)
       else t = 580)"
proof (cases "first_threshold x DBH_CLASSES")
  case None
  then have "\<not> (\<exists>t'\<in>set DBH_CLASSES. x \<le> t')"
    by (auto simp: first_threshold_None)
  moreover have "resolveDbhClass (Some (Finite x)) = Some 580"
    using assms None last_DBH_CLASSES by (simp add: resolveDbhClass_def DBH_CLASSES_def)
  ultimately show ?thesis by simp
next
  case (Some t)
  then have "\<exists>t'\<in>set DBH_CLASSES. x \<le> t'"
    using first_threshold_Some by blast
  moreover have "resolveDbhClass (Some (Finite x)) = Some t"
    using assms Some by (simp add: resolveDbhClass_def)
  ultimately show ?thesis using first_threshold_index[OF Some] by simp
qed

lemma binned_iff_has_class:
  assumes "aggregateBySpeciesAndDbh P xs = Some agg" "stem \<in> set xs"
  shows "(\<exists>sp cls b. map_get (agg sp) cls = Some b \<and> stem \<in> set (bin_stems b))
           \<longleftrightarrow> resolveDbhClass (dbh stem) \<noteq> None"
proof -
  let ?p = "min (maxPerTreeTime P) 30"
  have agg: "agg = foldl (aggregate_stem ?p) (\<lambda>_. []) xs"
    using assms(1) by (simp add: aggregateBySpeciesAndDbh_def split: if_splits)
  have get: "\<And>sp cls. map_get (agg sp) cls =
     (if bin_members sp cls xs = [] then None else Some (expected_bin ?p sp cls xs))"
    unfolding agg using aggregate_fold_inv by blast
  show ?thesis
  proof
    assume "\<exists>sp cls b. map_get (agg sp) cls = Some b \<and> stem \<in> set (bin_stems b)"
    then obtain sp cls b where b: "map_get (agg sp) cls = Some b" "stem \<in> set (bin_stems b)"
      by blast
    then have "b = expected_bin ?p sp cls xs" by (simp add: get split: if_splits)
    with b(2) have "stem \<in> set (bin_members sp cls xs)" by (simp add: expected_bin_fields)
    then show "resolveDbhClass (dbh stem) \<noteq> None" by (simp add: bin_members_def)
  next
    assume "resolveDbhClass (dbh stem) \<noteq> None"
    then obtain cls where cls: "resolveDbhClass (dbh stem) = Some cls" by blast
    let ?sp = "speciesCategory stem"
    have mem: "stem \<in> set (bin_members ?sp cls xs)"
      using assms(2) cls by (simp add: bin_members_def)
    then have "bin_members ?sp cls xs \<noteq> []" by auto
    then have "map_get (agg ?sp) cls = Some (expected_bin ?p ?sp cls xs)" by (simp add: get)
    moreover have "stem \<in> set (bin_stems (expected_bin ?p ?sp cls xs))"
      using mem by (simp add: expected_bin_fields)
    ultimately show "\<exists>sp cls b. map_get (agg sp) cls = Some b \<and> stem \<in> set (bin_stems b)"
      by blast
  qed
qed

text \<open>
  Claim C5. A finite, strictly positive diameter resolves to the first threshold of the
  ascending class sequence that is greater than or equal to it, and to the largest threshold,
  580, when it exceeds every threshold. \<^verbatim>\<open>resolveDbhClass\<close> returns no class
  exactly for a diameter that is absent, not finite or not positive, and a stem of the dataset
  is a member of some bin of the aggregate exactly when its diameter has a class: no stem is
  left out for being too large.
\<close>

theorem resolveDbhClass_first_threshold_or_largest:
  "(0 < x \<longrightarrow>
      (\<exists>t. resolveDbhClass (Some (Finite x)) = Some t \<and>
         (if \<exists>t'\<in>set DBH_CLASSES. x \<le> t'
          then \<exists>i<length DBH_CLASSES. t = DBH_CLASSES ! i \<and> x \<le> t \<and> (\<forall>j<i. DBH_CLASSES ! j < x)
          else t = 580)))
   \<and> sorted_wrt (<) DBH_CLASSES \<and> last DBH_CLASSES = 580
   \<and> (resolveDbhClass d = None \<longleftrightarrow>
        d = None \<or> d = Some PosInfinity \<or> d = Some NegInfinity \<or> d = Some NaN
          \<or> (\<exists>y\<le>0. d = Some (Finite y)))
   \<and> (aggregateBySpeciesAndDbh P xs = Some agg \<longrightarrow>
        (\<forall>stem\<in>set xs.
           (\<exists>sp cls b. map_get (agg sp) cls = Some b \<and> stem \<in> set (bin_stems b))
             \<longleftrightarrow> resolveDbhClass (dbh stem) \<noteq> None))"
  using resolveDbhClass_positive[of x] DBH_CLASSES_ascending last_DBH_CLASSES
    resolveDbhClass_None_iff[of d] binned_iff_has_class[of P xs agg]
  by blast

theorem resolveDbhClass_first_threshold_or_largest_witness:
  "resolveDbhClass (Some (Finite 150)) = Some 160
   \<and> resolveDbhClass (Some (Finite 1000)) = Some 580
   \<and> resolveDbhClass (Some (Finite 0)) = None
   \<and> resolveDbhClass (Some PosInfinity) = None"
proof -
  have big: "\<not> (\<exists>t'\<in>set DBH_CLASSES. (1000::real) \<le> t')" by (simp add: DBH_CLASSES_def)
  have "resolveDbhClass (Some (Finite 1000)) = Some 580"
    using resolveDbhClass_first_threshold_or_largest[of 1000 None] big by auto
  moreover have "resolveDbhClass (Some (Finite 150)) = Some 160"
    by (simp add: resolveDbhClass_def DBH_CLASSES_def)
  moreover have "resolveDbhClass (Some (Finite 0)) = None"
    using resolveDbhClass_first_threshold_or_largest[of 1 "Some (Finite 0)"] by auto
  moreover have "resolveDbhClass (Some PosInfinity) = None"
    using resolveDbhClass_first_threshold_or_largest[of 1 "Some PosInfinity"] by auto
  ultimately show ?thesis by simp
qed

subsection \<open>Calculation runs\<close>

lemma aggregate_bins:
  assumes "aggregateBySpeciesAndDbh P xs = Some agg"
  shows "map_get (agg sp) cls =
     (if bin_members sp cls xs = [] then None
      else Some (expected_bin (min (maxPerTreeTime P) 30) sp cls xs))"
proof -
  have "agg = foldl (aggregate_stem (min (maxPerTreeTime P) 30)) (\<lambda>_. []) xs"
    using assms by (simp add: aggregateBySpeciesAndDbh_def split: if_splits)
  then show ?thesis using aggregate_fold_inv by blast
qed

lemma aggregate_stem_adds_time:
  assumes "resolveDbhClass (dbh stem) = Some cls"
  shows "\<exists>b'. map_get (aggregate_stem p a stem (speciesCategory stem)) cls = Some b' \<and>
     bin_totalTime b' =
       (case map_get (a (speciesCategory stem)) cls of Some b \<Rightarrow> bin_totalTime b | None \<Rightarrow> 0) + p"
  unfolding aggregate_stem_Some[OF assms]
  by (simp add: map_get_map_set split: option.splits)

lemma rows_of_run:
  assumes "calculateResults P D L xs = Some out" "r \<in> set (out_results out)"
  shows "\<exists>sp c. bin_members sp c xs \<noteq> [] \<and>
           r = bin_row P D sp c (expected_bin (min (maxPerTreeTime P) 30) sp c xs)"
proof -
  have "r \<in> set (all_rows P D xs)"
    using assms by (simp add: calculateResults_rows)
  then show ?thesis unfolding set_all_rows by blast
qed

lemma indexOf_160: "indexOf DBH_CLASSES 160 = 4"
  by (simp add: indexOf_def DBH_CLASSES_def)

lemma resolve_150: "resolveDbhClass (Some (Finite 150)) = Some 160"
  by (simp add: resolveDbhClass_def DBH_CLASSES_def)

lemma calculateResults_single:
  assumes "resolveDbhClass (dbh stem) = Some c"
  shows "\<exists>out. calculateResults P D L [stem] = Some out \<and>
     out_results out = [bin_row P D (speciesCategory stem) c
        \<lparr>bin_stems = [stem], bin_totalTime = min (maxPerTreeTime P) 30,
         bin_totalVolume = stem_volume stem\<rparr>]"
proof -
  let ?p = "min (maxPerTreeTime P) 30"
  let ?b = "\<lparr>bin_stems = [stem], bin_totalTime = ?p, bin_totalVolume = stem_volume stem\<rparr>"
  obtain out where out: "calculateResults P D L [stem] = Some out"
    using calculateResults_None[of P D L "[stem]"] by (cases "calculateResults P D L [stem]") auto
  have agg: "foldl (aggregate_stem ?p) (\<lambda>_. []) [stem] = (\<lambda>_. [])(speciesCategory stem := [(c, ?b)])"
    by (simp add: aggregate_stem_Some[OF assms])
  have rows: "all_rows P D [stem] = [bin_row P D (speciesCategory stem) c ?b]"
    unfolding all_rows_def agg SUPPORTED_SPECIES_def
    by (cases "speciesCategory stem") (simp_all add: species_rows_def)
  have "out_results out = [bin_row P D (speciesCategory stem) c ?b]"
    using calculateResults_rows[OF out] rows by simp
  with out show ?thesis by blast
qed

text \<open>Accents and the characters with the property \<^verbatim>\<open>Diacritic\<close> do not stand in the
  way of a match: a circumflex inside the word, and an a with diaeresis (U+00E4) for the
  a.\<close>

lemma example_names_with_diacritics:
  "mapSpeciesNameToCategory (Some ''Gr^an'') = Gran"
  "mapSpeciesNameToCategory (Some [CHR ''G'', CHR ''r'', CHR 0xE4, CHR ''n'']) = Gran"
  "mapSpeciesNameToCategory (Some [CHR ''L'', CHR 0xF6, CHR ''v'']) = Lov"
  "normalizeSpeciesIdentifier [CHR ''L'', CHR 0xF6, CHR ''v''] = map of_char ''LOV''"
  by code_simp+

lemma mapSpeciesNameToCategory_Gran_iff:
  "mapSpeciesNameToCategory (Some name) = Gran \<longleftrightarrow>
     name \<noteq> []
     \<and> regex_test [''GRAN'', ''SPRUCE'', ''BARKBORRE''] (normalizeSpeciesIdentifier name)
     \<and> \<not> regex_test [''TALL'', ''PINE'', ''LARK''] (normalizeSpeciesIdentifier name)"
  by (simp add: mapSpeciesNameToCategory_def Let_def)

text \<open>
  Claim C1. A dataset of one record with diameter 150 mm and volume 0.8 cubic metres, whose species
  name is classified as spruce, with divisor 20 for spruce in the class 160 and a harvesting
  cost rate of 1800, gives one result row, for spruce and class 160, with price 90 per cubic
  metre and total price 72.
\<close>

theorem scenario_single_spruce_record:
  assumes "dbh stem = Some (Finite 150)"
    and "stem_volume stem = 0.8"
    and "speciesCategory stem = mapSpeciesNameToCategory (speciesName stem)"
    and "mapSpeciesNameToCategory (speciesName stem) = Gran"
    and "bin_divisor D Gran 160 = Some 20"
    and "harvestingCostRate P = 1800"
  shows "\<exists>out r. calculateResults P D L [stem] = Some out \<and> out_results out = [r] \<and>
           species r = Gran \<and> dbhClass r = 160 \<and> stems r = 1 \<and>
           pricePerCubicMeter r = 90 \<and> totalPrice r = 72"
proof -
  have c: "resolveDbhClass (dbh stem) = Some 160"
    using assms(1) resolve_150 by simp
  from calculateResults_single[OF c, of P D L] obtain out where
    out: "calculateResults P D L [stem] = Some out"
      "out_results out = [bin_row P D (speciesCategory stem) 160
        \<lparr>bin_stems = [stem], bin_totalTime = min (maxPerTreeTime P) 30,
         bin_totalVolume = stem_volume stem\<rparr>]"
    by blast
  let ?r = "bin_row P D Gran 160
        \<lparr>bin_stems = [stem], bin_totalTime = min (maxPerTreeTime P) 30, bin_totalVolume = 0.8\<rparr>"
  have r: "out_results out = [?r]" using out(2) assms(2,3,4) by simp
  have "pricePerCubicMeter ?r = 90" "totalPrice ?r = 72"
    using assms(5,6) by (simp_all add: bin_row_def Let_def bin_price_def)
  then show ?thesis using out(1) r by (auto simp: bin_row_fields)
qed

theorem scenario_single_spruce_record_witness:
  "\<exists>out r. calculateResults initial_params
             (DEFAULT_SPECIES_DIVISORS(Gran := (DEFAULT_SPECIES_DIVISORS Gran)[4 := Some 20]))
             initial_legacyPrices
             [example_stem ''stem_0'' ''Spruce'' 0.8 (Some (Finite 150))] = Some out \<and>
           out_results out = [r] \<and> species r = Gran \<and> dbhClass r = 160 \<and> stems r = 1 \<and>
           pricePerCubicMeter r = 90 \<and> totalPrice r = 72"
proof (rule scenario_single_spruce_record)
  show "dbh (example_stem ''stem_0'' ''Spruce'' 0.8 (Some (Finite 150))) = Some (Finite 150)"
    by (simp add: example_stem_def)
  show "stem_volume (example_stem ''stem_0'' ''Spruce'' 0.8 (Some (Finite 150))) = 0.8"
    by (simp add: example_stem_def)
  show "speciesCategory (example_stem ''stem_0'' ''Spruce'' 0.8 (Some (Finite 150))) =
      mapSpeciesNameToCategory (speciesName (example_stem ''stem_0'' ''Spruce'' 0.8 (Some (Finite 150))))"
    by (simp add: example_stem_def)
  show "mapSpeciesNameToCategory (speciesName (example_stem ''stem_0'' ''Spruce'' 0.8 (Some (Finite 150)))) = Gran"
    unfolding example_stem_def by code_simp
  show "bin_divisor (DEFAULT_SPECIES_DIVISORS(Gran := (DEFAULT_SPECIES_DIVISORS Gran)[4 := Some 20])) Gran 160 = Some 20"
    by (simp add: bin_divisor_def indexOf_160 js_nth_def DEFAULT_SPECIES_DIVISORS_def)
  show "harvestingCostRate initial_params = 1800"
    by (simp add: initial_params_def)
qed

lemma example_classes:
  "map (\<lambda>s. (speciesCategory s, resolveDbhClass (dbh s))) example_dataset =
     [(Gran, Some 160), (Lov, Some 580), (Gran, Some 160), (Tall, None), (Tall, Some 80)]"
  by code_simp

lemma example_stem_fields:
  "dbh (example_stem k n v d) = d" "stem_volume (example_stem k n v d) = v"
  "speciesCategory (example_stem k n v d) = mapSpeciesNameToCategory (Some n)"
  by (simp_all add: example_stem_def)

lemma example_rows:
  "map (\<lambda>r. (species r, dbhClass r, stems r, totalTime r, totalVolume r)) (all_rows initial_params D example_dataset)
    = [(Tall, 80, 1, 30, 0.25), (Gran, 160, 2, 60, 1.2), (Lov, 580, 1, 30, 1.5)]"
proof -
  have p: "min (maxPerTreeTime initial_params) 30 = 30" by (simp add: initial_params_def)
  have c: "mapSpeciesNameToCategory (Some ''Spruce'') = Gran" "mapSpeciesNameToCategory (Some ''Birch'') = Lov"
     "mapSpeciesNameToCategory (Some ''Gran'') = Gran" "mapSpeciesNameToCategory (Some ''Pine'') = Tall"
    by code_simp+
  have r: "resolveDbhClass (Some (Finite 150)) = Some 160" "resolveDbhClass (Some (Finite 700)) = Some 580"
     "resolveDbhClass (Some (Finite 155)) = Some 160" "resolveDbhClass (Some (Finite 80)) = Some 80"
     "resolveDbhClass None = None"
    by (simp_all add: resolveDbhClass_def DBH_CLASSES_def)
  show ?thesis
    unfolding all_rows_def p example_dataset_def SUPPORTED_SPECIES_def
    by (simp add: aggregate_stem_def example_stem_fields c r species_rows_def
          bin_row_fields Let_def)
qed

lemma indexOf_SUPPORTED_SPECIES:
  "indexOf SUPPORTED_SPECIES Tall = 0" "indexOf SUPPORTED_SPECIES Gran = 1"
  "indexOf SUPPORTED_SPECIES Lov = 2"
  by (simp_all add: indexOf_def SUPPORTED_SPECIES_def)

lemma species_rows_order:
  "map row_order (species_rows P D (foldl (aggregate_stem p) (\<lambda>_. []) xs) sp) =
     map (\<lambda>c. (indexOf SUPPORTED_SPECIES sp, c)) (sort (map fst (foldl (aggregate_stem p) (\<lambda>_. []) xs sp)))"
  unfolding species_rows_fold by (simp add: row_order_def bin_row_fields)

lemma sorted_map_pair: "sorted ks \<Longrightarrow> sorted (map (\<lambda>c. (i::int, c::real)) ks)"
  by (induction ks) auto

lemma all_rows_sorted: "sorted (map row_order (all_rows P D xs))"
proof -
  let ?agg = "foldl (aggregate_stem (min (maxPerTreeTime P) 30)) (\<lambda>_. []) xs"
  have s: "\<And>sp. sorted (map row_order (species_rows P D ?agg sp))"
    unfolding species_rows_order by (rule sorted_map_pair) simp
  have f: "\<And>sp r. r \<in> set (species_rows P D ?agg sp) \<Longrightarrow> fst (row_order r) = indexOf SUPPORTED_SPECIES sp"
    unfolding species_rows_fold by (auto simp: row_order_def bin_row_fields)
  have le: "\<And>a b. fst (row_order a) < fst (row_order b) \<Longrightarrow> row_order a \<le> row_order b"
    by (simp add: less_eq_prod_def)
  show ?thesis
    unfolding all_rows_def SUPPORTED_SPECIES_def
    using s f[of _ Tall] f[of _ Gran] f[of _ Lov]
    by (auto simp: sorted_append indexOf_SUPPORTED_SPECIES intro!: le)
qed

lemma calculateResults_rows_sorted:
  "calculateResults P D L xs = Some out \<Longrightarrow> out_results out = all_rows P D xs"
  using calculateResults_rows[of P D L xs out] all_rows_sorted[of P D xs]
  by (simp add: sort_key_id_if_sorted)

lemma all_rows_keys_distinct:
  "distinct (map (\<lambda>r. (species r, dbhClass r)) (all_rows P D xs))"
proof -
  let ?agg = "foldl (aggregate_stem (min (maxPerTreeTime P) 30)) (\<lambda>_. []) xs"
  have k: "\<And>sp. map (\<lambda>r. (species r, dbhClass r)) (species_rows P D ?agg sp) =
      map (\<lambda>c. (sp, c)) (sort (map fst (?agg sp)))"
    unfolding species_rows_fold by (simp add: bin_row_fields)
  have d: "\<And>sp. distinct (map (\<lambda>c. (sp, c)) (sort (map fst (?agg sp))))"
    using aggregate_fold_inv[of "min (maxPerTreeTime P) 30" xs]
    by (simp add: distinct_map inj_on_def)
  show ?thesis
    unfolding all_rows_def SUPPORTED_SPECIES_def
    using d by (auto simp: k)
qed

lemma bins_of_stem:
  assumes "aggregateBySpeciesAndDbh P xs = Some agg" "stem \<in> set xs"
  shows "{(sp, cls). \<exists>b. map_get (agg sp) cls = Some b \<and> stem \<in> set (bin_stems b)} =
     (case resolveDbhClass (dbh stem) of Some c \<Rightarrow> {(speciesCategory stem, c)} | None \<Rightarrow> {})"
proof -
  let ?p = "min (maxPerTreeTime P) 30"
  have mem: "\<And>sp cls. (\<exists>b. map_get (agg sp) cls = Some b \<and> stem \<in> set (bin_stems b)) \<longleftrightarrow>
      speciesCategory stem = sp \<and> resolveDbhClass (dbh stem) = Some cls"
  proof -
    fix sp cls
    have "(\<exists>b. map_get (agg sp) cls = Some b \<and> stem \<in> set (bin_stems b)) \<longleftrightarrow>
        stem \<in> set (bin_members sp cls xs)"
      by (auto simp: aggregate_bins[OF assms(1)] expected_bin_fields split: if_splits)
    then show "(\<exists>b. map_get (agg sp) cls = Some b \<and> stem \<in> set (bin_stems b)) \<longleftrightarrow>
      speciesCategory stem = sp \<and> resolveDbhClass (dbh stem) = Some cls"
      using assms(2) by (simp add: bin_members_def)
  qed
  show ?thesis
    unfolding mem by (auto split: option.splits)
qed

lemma aggregate_keys_distinct:
  "aggregateBySpeciesAndDbh P xs = Some agg \<Longrightarrow> distinct (map fst (agg sp))"
  using aggregate_fold_inv[of "min (maxPerTreeTime P) 30" xs sp]
  by (auto simp add: aggregateBySpeciesAndDbh_def split: if_splits)

text \<open>
  Claim C2. A calculation run returns without a result only for the empty dataset. Otherwise
  the stems fields of its rows add up to the number of records whose diameter resolves to a
  class; the rows have pairwise different (species, class) keys and the row of a key counts
  the records of that species that resolve to that class. In the aggregate the keys of each
  species are pairwise different, a bin holds the records of its species and class, and the
  bins that hold a given record of the dataset are the single bin of its species and class
  when its diameter resolves to a class, and none otherwise. The totals of stems and of volume
  range over the records with a class only.
\<close>

theorem stems_sum_counts_records_with_class:
  "(case calculateResults P D L xs of
      None \<Rightarrow> xs = []
    | Some out \<Rightarrow>
        sum_list (map stems (out_results out)) = length (filter has_dbh_class xs)
        \<and> distinct (map (\<lambda>r. (species r, dbhClass r)) (out_results out))
        \<and> (\<forall>r\<in>set (out_results out).
              stems r = length (bin_members (species r) (dbhClass r) xs) \<and> 0 < stems r)
        \<and> new_totalStems (out_newTotals out) = length (filter has_dbh_class xs)
        \<and> new_totalVolume (out_newTotals out)
             = sum_list (map stem_volume (filter has_dbh_class xs))
        \<and> legacy_totalStems (out_oldModelSummary out) = length (filter has_dbh_class xs)
        \<and> legacy_totalVolume (out_oldModelSummary out)
             = sum_list (map stem_volume (filter has_dbh_class xs)))
   \<and> (case aggregateBySpeciesAndDbh P xs of
        None \<Rightarrow> xs = []
      | Some agg \<Rightarrow>
          (\<forall>sp. distinct (map fst (agg sp)))
          \<and> (\<forall>sp cls b. map_get (agg sp) cls = Some b \<longrightarrow> bin_stems b = bin_members sp cls xs)
          \<and> (\<forall>stem\<in>set xs.
                {(sp, cls). \<exists>b. map_get (agg sp) cls = Some b \<and> stem \<in> set (bin_stems b)} =
                  (case resolveDbhClass (dbh stem) of
                     Some c \<Rightarrow> {(speciesCategory stem, c)}
                   | None \<Rightarrow> {})))"
proof (intro conjI)
  show "case calculateResults P D L xs of
      None \<Rightarrow> xs = []
    | Some out \<Rightarrow>
        sum_list (map stems (out_results out)) = length (filter has_dbh_class xs)
        \<and> distinct (map (\<lambda>r. (species r, dbhClass r)) (out_results out))
        \<and> (\<forall>r\<in>set (out_results out).
              stems r = length (bin_members (species r) (dbhClass r) xs) \<and> 0 < stems r)
        \<and> new_totalStems (out_newTotals out) = length (filter has_dbh_class xs)
        \<and> new_totalVolume (out_newTotals out)
             = sum_list (map stem_volume (filter has_dbh_class xs))
        \<and> legacy_totalStems (out_oldModelSummary out) = length (filter has_dbh_class xs)
        \<and> legacy_totalVolume (out_oldModelSummary out)
             = sum_list (map stem_volume (filter has_dbh_class xs))"
  proof (cases "calculateResults P D L xs")
    case None
    then have "xs = []" by (simp only: calculateResults_None)
    with None show ?thesis by simp
  next
    case (Some out)
    have rows: "out_results out = all_rows P D xs"
      using Some by (rule calculateResults_rows_sorted)
    have r: "\<forall>r\<in>set (out_results out).
              stems r = length (bin_members (species r) (dbhClass r) xs) \<and> 0 < stems r"
    proof
      fix r assume "r \<in> set (out_results out)"
      from rows_of_run[OF Some this] show
        "stems r = length (bin_members (species r) (dbhClass r) xs) \<and> 0 < stems r"
        by (auto simp: bin_row_fields expected_bin_fields)
    qed
    have leg: "legacy_totalStems (out_oldModelSummary out) = new_totalStems (out_newTotals out)"
      "legacy_totalVolume (out_oldModelSummary out) = new_totalVolume (out_newTotals out)"
      using Some
      by (auto simp add: calculateResults_def aggregateBySpeciesAndDbh_def Let_def split: if_splits)
    have t: "new_totalStems (out_newTotals out) = length (filter has_dbh_class xs)"
      "new_totalVolume (out_newTotals out) = sum_list (map stem_volume (filter has_dbh_class xs))"
      by (simp_all add: calculateResults_totals[OF Some] rows stems_sum_all_rows
            volume_sum_all_rows)
    have s: "sum_list (map stems (out_results out)) = length (filter has_dbh_class xs)"
      by (simp add: rows stems_sum_all_rows)
    have d: "distinct (map (\<lambda>r. (species r, dbhClass r)) (out_results out))"
      by (simp add: rows all_rows_keys_distinct)
    show ?thesis
      unfolding Some option.case leg t using s d r by blast
  qed
next
  show "case aggregateBySpeciesAndDbh P xs of
        None \<Rightarrow> xs = []
      | Some agg \<Rightarrow>
          (\<forall>sp. distinct (map fst (agg sp)))
          \<and> (\<forall>sp cls b. map_get (agg sp) cls = Some b \<longrightarrow> bin_stems b = bin_members sp cls xs)
          \<and> (\<forall>stem\<in>set xs.
                {(sp, cls). \<exists>b. map_get (agg sp) cls = Some b \<and> stem \<in> set (bin_stems b)} =
                  (case resolveDbhClass (dbh stem) of
                     Some c \<Rightarrow> {(speciesCategory stem, c)}
                   | None \<Rightarrow> {}))"
  proof (cases "aggregateBySpeciesAndDbh P xs")
    case None
    then show ?thesis by (simp add: aggregateBySpeciesAndDbh_def split: if_splits)
  next
    case (Some agg)
    have "\<forall>sp cls b. map_get (agg sp) cls = Some b \<longrightarrow> bin_stems b = bin_members sp cls xs"
      by (auto simp: aggregate_bins[OF Some] expected_bin_fields split: if_splits)
    then show ?thesis
      using aggregate_keys_distinct[OF Some] bins_of_stem[OF Some] by (simp add: Some)
  qed
qed

lemma example_has_class:
  "length (filter has_dbh_class example_dataset) = 4"
proof -
  have "map has_dbh_class example_dataset =
      map (\<lambda>p. snd p \<noteq> None) (map (\<lambda>s. (speciesCategory s, resolveDbhClass (dbh s))) example_dataset)"
    by (simp add: has_dbh_class_def)
  also have "\<dots> = [True, True, True, False, True]"
    unfolding example_classes by simp
  finally have m: "map has_dbh_class example_dataset = [True, True, True, False, True]" .
  have "length (filter has_dbh_class example_dataset) = length (filter id (map has_dbh_class example_dataset))"
    by (simp add: filter_map comp_def)
  then show ?thesis unfolding m by simp
qed

theorem stems_sum_counts_records_with_class_witness:
  "\<exists>out. calculateResults initial_params DEFAULT_SPECIES_DIVISORS initial_legacyPrices
            example_dataset = Some out
     \<and> sum_list (map stems (out_results out)) = 4
     \<and> new_totalStems (out_newTotals out) = 4
     \<and> length example_dataset = 5"
proof -
  have ne: "example_dataset \<noteq> []" by (simp add: example_dataset_def)
  then obtain out where out: "calculateResults initial_params DEFAULT_SPECIES_DIVISORS
      initial_legacyPrices example_dataset = Some out"
    using calculateResults_None[of initial_params DEFAULT_SPECIES_DIVISORS initial_legacyPrices
        example_dataset] by auto
  have "sum_list (map stems (out_results out)) = 4 \<and> new_totalStems (out_newTotals out) = 4"
    using stems_sum_counts_records_with_class[where P = initial_params
        and D = DEFAULT_SPECIES_DIVISORS and L = initial_legacyPrices and xs = example_dataset]
      out example_has_class
    by simp
  moreover have "length example_dataset = 5" by (simp add: example_dataset_def)
  ultimately show ?thesis using out by blast
qed

lemma bin_price_unpriced:
  "divisor = None \<or> (\<exists>dv\<le>0. divisor = Some dv) \<Longrightarrow> bin_price P divisor = 0"
  by (auto simp: bin_price_def)

lemma bin_divisor_unpriced:
  assumes "js_nth (D sp) (indexOf DBH_CLASSES cls) = None
           \<or> js_nth (D sp) (indexOf DBH_CLASSES cls) = Some None
           \<or> (\<exists>dv\<le>0. js_nth (D sp) (indexOf DBH_CLASSES cls) = Some (Some dv))"
  shows "bin_divisor D sp cls = None \<or> (\<exists>dv\<le>0. bin_divisor D sp cls = Some dv)"
  using assms by (auto simp: bin_divisor_def Let_def)

text \<open>
  Claim C3. In a calculation run, a row whose entry of the divisor table (for its species, at
  the index of its class) is missing, null or not strictly positive has price per cubic metre
  zero and total price zero, whatever its volume. The row still carries the number and the
  volume of the records of its bin, and the totals of stems and of volume are the sums over all
  rows, priced or not.
\<close>

theorem unpriced_bin_has_zero_price:
  "calculateResults P D L xs = Some out \<longrightarrow>
     (\<forall>r\<in>set (out_results out).
        (js_nth (D (species r)) (indexOf DBH_CLASSES (dbhClass r)) = None
         \<or> js_nth (D (species r)) (indexOf DBH_CLASSES (dbhClass r)) = Some None
         \<or> (\<exists>dv\<le>0. js_nth (D (species r)) (indexOf DBH_CLASSES (dbhClass r)) = Some (Some dv)))
        \<longrightarrow> pricePerCubicMeter r = 0 \<and> totalPrice r = 0
            \<and> stems r = length (bin_members (species r) (dbhClass r) xs) \<and> 0 < stems r
            \<and> totalVolume r = sum_list (map stem_volume (bin_members (species r) (dbhClass r) xs)))
     \<and> new_totalStems (out_newTotals out) = sum_list (map stems (out_results out))
     \<and> new_totalVolume (out_newTotals out) = sum_list (map totalVolume (out_results out))"
proof (intro impI conjI ballI)
  fix r
  assume out: "calculateResults P D L xs = Some out" and r: "r \<in> set (out_results out)"
    and un: "js_nth (D (species r)) (indexOf DBH_CLASSES (dbhClass r)) = None
         \<or> js_nth (D (species r)) (indexOf DBH_CLASSES (dbhClass r)) = Some None
         \<or> (\<exists>dv\<le>0. js_nth (D (species r)) (indexOf DBH_CLASSES (dbhClass r)) = Some (Some dv))"
  from rows_of_run[OF out r] obtain sp c where
    ne: "bin_members sp c xs \<noteq> []" and
    req: "r = bin_row P D sp c (expected_bin (min (maxPerTreeTime P) 30) sp c xs)"
    by blast
  have sc: "species r = sp" "dbhClass r = c" by (simp_all add: req bin_row_fields)
  have "bin_price P (bin_divisor D sp c) = 0"
    using un unfolding sc by (intro bin_price_unpriced bin_divisor_unpriced)
  then show "pricePerCubicMeter r = 0" "totalPrice r = 0"
    by (simp_all add: req bin_row_def Let_def)
  show "stems r = length (bin_members (species r) (dbhClass r) xs)"
    "totalVolume r = sum_list (map stem_volume (bin_members (species r) (dbhClass r) xs))"
    by (simp_all add: req bin_row_fields expected_bin_fields)
  show "0 < stems r" using ne by (simp add: req bin_row_fields expected_bin_fields)
next
  assume out: "calculateResults P D L xs = Some out"
  show "new_totalStems (out_newTotals out) = sum_list (map stems (out_results out))"
    "new_totalVolume (out_newTotals out) = sum_list (map totalVolume (out_results out))"
    using calculateResults_totals[OF out] by simp_all
qed

lemma example_run:
  "\<exists>out. calculateResults initial_params D L example_dataset = Some out \<and>
     out_results out = all_rows initial_params D example_dataset"
proof -
  have ne: "example_dataset \<noteq> []" by (simp add: example_dataset_def)
  then obtain out where out: "calculateResults initial_params D L example_dataset = Some out"
    using calculateResults_None[of initial_params D L example_dataset] by auto
  then show ?thesis using calculateResults_rows_sorted by blast
qed

lemma example_rows_list:
  "\<exists>r1 r2 r3. all_rows initial_params D example_dataset = [r1, r2, r3] \<and>
     species r1 = Tall \<and> dbhClass r1 = 80 \<and> stems r1 = 1 \<and> totalTime r1 = 30 \<and> totalVolume r1 = 0.25 \<and>
     species r2 = Gran \<and> dbhClass r2 = 160 \<and> stems r2 = 2 \<and> totalTime r2 = 60 \<and> totalVolume r2 = 1.2 \<and>
     species r3 = Lov \<and> dbhClass r3 = 580 \<and> stems r3 = 1 \<and> totalTime r3 = 30 \<and> totalVolume r3 = 1.5"
proof -
  obtain rs where rs: "rs = all_rows initial_params D example_dataset" by simp
  have m: "map (\<lambda>r. (species r, dbhClass r, stems r, totalTime r, totalVolume r)) rs
    = [(Tall, 80, 1, 30, 0.25), (Gran, 160, 2, 60, 1.2), (Lov, 580, 1, 30, 1.5)]"
    unfolding rs by (rule example_rows)
  then obtain r1 r2 r3 where l: "rs = [r1, r2, r3]"
    by (auto simp: map_eq_Cons_conv)
  show ?thesis using m unfolding l rs[symmetric] by simp
qed

theorem unpriced_bin_has_zero_price_witness:
  "\<exists>out r. calculateResults initial_params DEFAULT_SPECIES_DIVISORS initial_legacyPrices
            example_dataset = Some out
     \<and> r \<in> set (out_results out) \<and> species r = Lov \<and> dbhClass r = 580
     \<and> js_nth (DEFAULT_SPECIES_DIVISORS Lov) (indexOf DBH_CLASSES 580) = Some None
     \<and> pricePerCubicMeter r = 0 \<and> totalPrice r = 0 \<and> stems r = 1 \<and> totalVolume r = 1.5
     \<and> new_totalStems (out_newTotals out) = 4"
proof -
  from example_run[of DEFAULT_SPECIES_DIVISORS initial_legacyPrices] obtain out where
    out: "calculateResults initial_params DEFAULT_SPECIES_DIVISORS initial_legacyPrices
            example_dataset = Some out"
    and rows: "out_results out = all_rows initial_params DEFAULT_SPECIES_DIVISORS example_dataset"
    by blast
  from example_rows_list[of DEFAULT_SPECIES_DIVISORS] obtain r1 r2 r where
    l: "all_rows initial_params DEFAULT_SPECIES_DIVISORS example_dataset = [r1, r2, r]"
    and f: "species r = Lov" "dbhClass r = 580" "stems r = 1" "totalVolume r = 1.5"
      "stems r1 = 1" "stems r2 = 2"
    by blast
  have mem: "r \<in> set (out_results out)" by (simp add: rows l)
  have idx: "indexOf DBH_CLASSES 580 = 25" by (simp add: indexOf_def DBH_CLASSES_def)
  have d: "js_nth (DEFAULT_SPECIES_DIVISORS Lov) (indexOf DBH_CLASSES 580) = Some None"
    unfolding idx by (simp add: js_nth_def DEFAULT_SPECIES_DIVISORS_def)
  have "pricePerCubicMeter r = 0 \<and> totalPrice r = 0
      \<and> new_totalStems (out_newTotals out) = sum_list (map stems (out_results out))"
    using unpriced_bin_has_zero_price[where P = initial_params and D = DEFAULT_SPECIES_DIVISORS
        and L = initial_legacyPrices and xs = example_dataset and out = out] out mem d f(1,2)
    by simp
  then show ?thesis using out mem f d by (auto simp: rows l)
qed

text \<open>
  Claim C6. Every bin of the aggregate holds as its total time the number of its stems times
  \<open>min maxPerTreeTime 30\<close>, and so does every row of a calculation run; adding one stem
  with a diameter class adds exactly that per-stem value to the time of its bin; the per-stem
  value is never above 30 and never above the configured maximum.
\<close>

theorem aggregate_time_is_stems_times_capped_time:
  "(aggregateBySpeciesAndDbh P xs = Some agg \<longrightarrow>
      (\<forall>sp cls b. map_get (agg sp) cls = Some b \<longrightarrow>
         bin_totalTime b = real (length (bin_stems b)) * min (maxPerTreeTime P) 30))
   \<and> (calculateResults P D L xs = Some out \<longrightarrow>
      (\<forall>r\<in>set (out_results out). totalTime r = real (stems r) * min (maxPerTreeTime P) 30))
   \<and> (resolveDbhClass (dbh stem) = Some c \<longrightarrow>
      (\<exists>b'. map_get (aggregate_stem (min (maxPerTreeTime P) 30) a stem (speciesCategory stem)) c
               = Some b' \<and>
         bin_totalTime b' =
           (case map_get (a (speciesCategory stem)) c of Some b \<Rightarrow> bin_totalTime b | None \<Rightarrow> 0)
             + min (maxPerTreeTime P) 30))
   \<and> min (maxPerTreeTime P) 30 \<le> 30 \<and> min (maxPerTreeTime P) 30 \<le> maxPerTreeTime P"
proof (intro conjI impI allI ballI)
  fix sp cls b
  assume "aggregateBySpeciesAndDbh P xs = Some agg" "map_get (agg sp) cls = Some b"
  then have "b = expected_bin (min (maxPerTreeTime P) 30) sp cls xs"
    by (simp add: aggregate_bins split: if_splits)
  then show "bin_totalTime b = real (length (bin_stems b)) * min (maxPerTreeTime P) 30"
    by (simp add: expected_bin_fields)
next
  fix r
  assume "calculateResults P D L xs = Some out" "r \<in> set (out_results out)"
  from rows_of_run[OF this] show "totalTime r = real (stems r) * min (maxPerTreeTime P) 30"
    by (auto simp: bin_row_fields expected_bin_fields)
next
  assume "resolveDbhClass (dbh stem) = Some c"
  then show "\<exists>b'. map_get (aggregate_stem (min (maxPerTreeTime P) 30) a stem (speciesCategory stem)) c
               = Some b' \<and>
         bin_totalTime b' =
           (case map_get (a (speciesCategory stem)) c of Some b \<Rightarrow> bin_totalTime b | None \<Rightarrow> 0)
             + min (maxPerTreeTime P) 30"
    by (rule aggregate_stem_adds_time)
qed simp_all

theorem aggregate_time_is_stems_times_capped_time_witness:
  "\<exists>out r. calculateResults initial_params DEFAULT_SPECIES_DIVISORS initial_legacyPrices
            example_dataset = Some out
     \<and> r \<in> set (out_results out) \<and> species r = Gran \<and> stems r = 2 \<and> totalTime r = 60
     \<and> maxPerTreeTime initial_params = 600"
proof -
  from example_run[of DEFAULT_SPECIES_DIVISORS initial_legacyPrices] obtain out where
    out: "calculateResults initial_params DEFAULT_SPECIES_DIVISORS initial_legacyPrices
            example_dataset = Some out"
    and rows: "out_results out = all_rows initial_params DEFAULT_SPECIES_DIVISORS example_dataset"
    by blast
  from example_rows_list[of DEFAULT_SPECIES_DIVISORS] obtain r1 r r3 where
    l: "all_rows initial_params DEFAULT_SPECIES_DIVISORS example_dataset = [r1, r, r3]"
    and f: "species r = Gran" "stems r = 2"
    by blast
  have mem: "r \<in> set (out_results out)" by (simp add: rows l)
  have m: "maxPerTreeTime initial_params = 600" by (simp add: initial_params_def)
  have "totalTime r = real (stems r) * min (maxPerTreeTime initial_params) 30"
    using aggregate_time_is_stems_times_capped_time[where P = initial_params
        and D = DEFAULT_SPECIES_DIVISORS and L = initial_legacyPrices and xs = example_dataset
        and out = out] out mem
    by blast
  then have "totalTime r = 60" by (simp add: f m)
  then show ?thesis using out mem f m by blast
qed

subsection \<open>Legacy nearest-volume lookup\<close>

lemma nearest_scan_first_min:
  assumes "i < length pre"
    and "\<forall>j<length pre. \<bar>averageVolume (pre ! i) - v\<bar> \<le> \<bar>averageVolume (pre ! j) - v\<bar>"
    and "\<forall>j<i. \<bar>averageVolume (pre ! i) - v\<bar> < \<bar>averageVolume (pre ! j) - v\<bar>"
  shows "\<exists>k<length (pre @ rest).
      nearest_scan v (pre ! i) \<bar>averageVolume (pre ! i) - v\<bar> rest = (pre @ rest) ! k
      \<and> (\<forall>j<length (pre @ rest).
            \<bar>averageVolume ((pre @ rest) ! k) - v\<bar> \<le> \<bar>averageVolume ((pre @ rest) ! j) - v\<bar>)
      \<and> (\<forall>j<k. \<bar>averageVolume ((pre @ rest) ! k) - v\<bar> < \<bar>averageVolume ((pre @ rest) ! j) - v\<bar>)"
  using assms
proof (induction rest arbitrary: pre i)
  case Nil
  then show ?case by auto
next
  case (Cons e rest)
  let ?d = "\<lambda>x. \<bar>averageVolume x - v\<bar>"
  let ?pre = "pre @ [e]"
  have app: "?pre @ rest = pre @ e # rest" by simp
  show ?case
  proof (cases "?d e < ?d (pre ! i)")
    case True
    let ?i = "length pre"
    have 1: "?i < length ?pre" by simp
    have at: "?pre ! ?i = e" by simp
    have 2: "\<forall>j<length ?pre. ?d (?pre ! ?i) \<le> ?d (?pre ! j)"
    proof (intro allI impI)
      fix j assume "j < length ?pre"
      then consider "j < length pre" | "j = length pre" by fastforce
      then show "?d (?pre ! ?i) \<le> ?d (?pre ! j)"
      proof cases
        case 1
        then have "?d (pre ! i) \<le> ?d (pre ! j)" using Cons.prems(2) by blast
        with True 1 show ?thesis by (simp add: nth_append)
      next
        case 2
        then show ?thesis by simp
      qed
    qed
    have 3: "\<forall>j<?i. ?d (?pre ! ?i) < ?d (?pre ! j)"
    proof (intro allI impI)
      fix j assume j: "j < ?i"
      then have "?d (pre ! i) \<le> ?d (pre ! j)" using Cons.prems(2) by blast
      with True j show "?d (?pre ! ?i) < ?d (?pre ! j)" by (simp add: nth_append)
    qed
    from Cons.IH[OF 1 2 3] show ?thesis
      unfolding app at using True by (simp add: Let_def)
  next
    case False
    have 1: "i < length ?pre" using Cons.prems(1) by simp
    have at: "?pre ! i = pre ! i" using Cons.prems(1) by (simp add: nth_append)
    have 2: "\<forall>j<length ?pre. ?d (?pre ! i) \<le> ?d (?pre ! j)"
    proof (intro allI impI)
      fix j assume "j < length ?pre"
      then consider "j < length pre" | "j = length pre" by fastforce
      then show "?d (?pre ! i) \<le> ?d (?pre ! j)"
      proof cases
        case 1
        then show ?thesis using Cons.prems(2) at by (simp add: nth_append)
      next
        case 2
        then show ?thesis using False at by simp
      qed
    qed
    have 3: "\<forall>j<i. ?d (?pre ! i) < ?d (?pre ! j)"
      using Cons.prems(1,3) at by (simp add: nth_append)
    from Cons.IH[OF 1 2 3] show ?thesis
      unfolding app at using False by (simp add: Let_def)
  qed
qed

lemma nearestLegacyEntry_first_min:
  assumes "tbl \<noteq> []"
  shows "\<exists>k<length tbl.
      nearestLegacyEntry tbl v = tbl ! k
      \<and> (\<forall>j<length tbl.
            \<bar>averageVolume (tbl ! k) - v\<bar> \<le> \<bar>averageVolume (tbl ! j) - v\<bar>)
      \<and> (\<forall>j<k. \<bar>averageVolume (tbl ! k) - v\<bar> < \<bar>averageVolume (tbl ! j) - v\<bar>)"
proof -
  obtain e rest where l: "tbl = e # rest" using assms by (cases tbl) auto
  have "\<exists>k<length ([e] @ rest).
      nearest_scan v ([e] ! 0) \<bar>averageVolume ([e] ! 0) - v\<bar> rest = ([e] @ rest) ! k
      \<and> (\<forall>j<length ([e] @ rest).
            \<bar>averageVolume (([e] @ rest) ! k) - v\<bar> \<le> \<bar>averageVolume (([e] @ rest) ! j) - v\<bar>)
      \<and> (\<forall>j<k. \<bar>averageVolume (([e] @ rest) ! k) - v\<bar> < \<bar>averageVolume (([e] @ rest) ! j) - v\<bar>)"
    by (rule nearest_scan_first_min) simp_all
  then show ?thesis unfolding l nearestLegacyEntry_def by simp
qed

text \<open>
  Claim C4. For a price table that is not empty and a strictly positive average stem volume,
  the legacy lookup returns the price of the entry at the least index among the entries whose
  breakpoint is nearest to the value in absolute difference. So a value equal to a breakpoint
  selects the first entry with that breakpoint, and a value equidistant between two nearest
  breakpoints selects the entry with the lower index.
\<close>

theorem legacy_lookup_first_nearest_breakpoint:
  assumes "tbl \<noteq> []" and "0 < v"
  shows "\<exists>k<length tbl.
      nearestLegacyEntry tbl v = tbl ! k
      \<and> getLegacyPriceForVolume tbl (Some v) = price (tbl ! k)
      \<and> (\<forall>j<length tbl.
            \<bar>averageVolume (tbl ! k) - v\<bar> \<le> \<bar>averageVolume (tbl ! j) - v\<bar>)
      \<and> (\<forall>j<k. \<bar>averageVolume (tbl ! k) - v\<bar> < \<bar>averageVolume (tbl ! j) - v\<bar>)
      \<and> (\<forall>j<length tbl. averageVolume (tbl ! j) = v \<longrightarrow>
            averageVolume (tbl ! k) = v \<and> k \<le> j)
      \<and> (\<forall>j<length tbl.
            \<bar>averageVolume (tbl ! j) - v\<bar> = \<bar>averageVolume (tbl ! k) - v\<bar>
              \<longrightarrow> k \<le> j)"
proof -
  from nearestLegacyEntry_first_min[OF assms(1), of v] obtain k where
    k: "k < length tbl" "nearestLegacyEntry tbl v = tbl ! k"
    and mn: "\<forall>j<length tbl.
            \<bar>averageVolume (tbl ! k) - v\<bar> \<le> \<bar>averageVolume (tbl ! j) - v\<bar>"
    and fst: "\<forall>j<k. \<bar>averageVolume (tbl ! k) - v\<bar> < \<bar>averageVolume (tbl ! j) - v\<bar>"
    by blast
  have p: "getLegacyPriceForVolume tbl (Some v) = price (tbl ! k)"
    using assms k by (simp add: getLegacyPriceForVolume_def)
  have eq: "\<forall>j<length tbl.
            \<bar>averageVolume (tbl ! j) - v\<bar> = \<bar>averageVolume (tbl ! k) - v\<bar>
              \<longrightarrow> k \<le> j"
    using fst by (metis less_irrefl not_le_imp_less)
  have ex: "\<forall>j<length tbl. averageVolume (tbl ! j) = v \<longrightarrow>
            averageVolume (tbl ! k) = v \<and> k \<le> j"
  proof (intro allI impI)
    fix j assume j: "j < length tbl" "averageVolume (tbl ! j) = v"
    then have "\<bar>averageVolume (tbl ! k) - v\<bar> \<le> 0" using mn by fastforce
    then have a: "averageVolume (tbl ! k) = v" by simp
    with j eq show "averageVolume (tbl ! k) = v \<and> k \<le> j" by simp
  qed
  show ?thesis using k p mn fst ex eq by blast
qed

theorem legacy_lookup_first_nearest_breakpoint_witness:
  "getLegacyPriceForVolume
     [\<lparr>averageVolume = 0.2, price = 110\<rparr>, \<lparr>averageVolume = 0.25, price = 115\<rparr>,
      \<lparr>averageVolume = 0.3, price = 120\<rparr>] (Some 0.225) = 110
   \<and> getLegacyPriceForVolume
     [\<lparr>averageVolume = 0.2, price = 110\<rparr>, \<lparr>averageVolume = 0.25, price = 115\<rparr>,
      \<lparr>averageVolume = 0.3, price = 120\<rparr>] (Some 0.25) = 115"
proof -
  define t where "t = [\<lparr>averageVolume = 0.2, price = 110\<rparr>, \<lparr>averageVolume = 0.25, price = 115\<rparr>,
      \<lparr>averageVolume = 0.3, price = 120\<rparr>]"
  have ne: "t \<noteq> []" and len: "length t = 3" by (simp_all add: t_def)
  have t0: "averageVolume (t ! 0) = 0.2" "price (t ! 0) = 110"
    and t1: "averageVolume (t ! 1) = 0.25" "price (t ! 1) = 115"
    and t2: "averageVolume (t ! 2) = 0.3" "price (t ! 2) = 120"
    by (simp_all add: t_def)
  have a: "getLegacyPriceForVolume t (Some 0.225) = 110"
  proof -
    have pos: "(0::real) < 0.225" by simp
    from legacy_lookup_first_nearest_breakpoint[OF ne pos] obtain k where
      k: "k < length t" "getLegacyPriceForVolume t (Some 0.225) = price (t ! k)"
      and mn: "\<And>j. j < length t \<Longrightarrow> \<bar>averageVolume (t ! k) - 0.225\<bar> \<le> \<bar>averageVolume (t ! j) - 0.225\<bar>"
      and fs: "\<And>j. j < k \<Longrightarrow> \<bar>averageVolume (t ! k) - 0.225\<bar> < \<bar>averageVolume (t ! j) - 0.225\<bar>"
      by blast
    from k(1) len consider "k = 0" | "k = 1" | "k = 2" by linarith
    then show ?thesis
    proof cases
      case 1
      with k(2) t0 show ?thesis by simp
    next
      case 2
      with fs[of 0] t0 t1 show ?thesis by simp
    next
      case 3
      with fs[of 0] t0 t2 show ?thesis by simp
    qed
  qed
  have b: "getLegacyPriceForVolume t (Some 0.25) = 115"
  proof -
    have pos: "(0::real) < 0.25" by simp
    from legacy_lookup_first_nearest_breakpoint[OF ne pos] obtain k where
      k: "k < length t" "getLegacyPriceForVolume t (Some 0.25) = price (t ! k)"
      and mn: "\<And>j. j < length t \<Longrightarrow> \<bar>averageVolume (t ! k) - 0.25\<bar> \<le> \<bar>averageVolume (t ! j) - 0.25\<bar>"
      by blast
    from k(1) len consider "k = 0" | "k = 1" | "k = 2" by linarith
    then show ?thesis
    proof cases
      case 1
      with mn[of 1] len t0 t1 show ?thesis by simp
    next
      case 2
      with k(2) t1 show ?thesis by simp
    next
      case 3
      with mn[of 1] len t1 t2 show ?thesis by simp
    qed
  qed
  show ?thesis using a b unfolding t_def by simp
qed

subsection \<open>Loading files\<close>

lemma parse_files_stems:
  "fst (parse_files parseHPRFile (acc, n) files) = acc @ concat (map (file_stems parseHPRFile) files)"
  by (induction files arbitrary: acc n) (auto simp: file_stems_def split: option.splits)

lemma processFiles_stems:
  "selectedFiles \<noteq> [] \<Longrightarrow>
   up_stems (processFiles parseHPRFile st selectedFiles appendOpt) =
     (if appendOpt then up_stems st else []) @ concat (map (file_stems parseHPRFile) selectedFiles)"
proof -
  assume ne: "selectedFiles \<noteq> []"
  obtain cs cl where p: "parse_files parseHPRFile
       (if appendOpt then up_stems st else [], if appendOpt then up_totalLogCount st else 0)
       selectedFiles = (cs, cl)" by fastforce
  then have "cs = (if appendOpt then up_stems st else []) @ concat (map (file_stems parseHPRFile) selectedFiles)"
    using parse_files_stems[of parseHPRFile "if appendOpt then up_stems st else []"
        "if appendOpt then up_totalLogCount st else 0" selectedFiles] by simp
  then show ?thesis using ne p by (simp add: processFiles_def Let_def)
qed

lemma App_processFiles_stems:
  "up_stems (App_processFiles parseHPRFile st selectedFiles) =
     concat (map (file_stems parseHPRFile) selectedFiles)"
proof -
  obtain cs cl where p: "parse_files parseHPRFile ([], 0) selectedFiles = (cs, cl)" by fastforce
  then have "cs = concat (map (file_stems parseHPRFile) selectedFiles)"
    using parse_files_stems[of parseHPRFile "[]" 0 selectedFiles] by simp
  then show ?thesis using p by (simp add: App_processFiles_def Let_def)
qed

lemma handleFileUpload_stems:
  "selectedFiles \<noteq> [] \<Longrightarrow>
   up_stems (handleFileUpload parseHPRFile st selectedFiles) =
     (if up_shouldAppend st then up_stems st else [])
       @ concat (map (file_stems parseHPRFile) selectedFiles)"
  by (simp add: handleFileUpload_def processFiles_stems)

lemma handleFileUpload_hasUploaded:
  assumes "selectedFiles \<noteq> []"
  shows "up_hasUploaded (handleFileUpload parseHPRFile st selectedFiles) \<longleftrightarrow>
     up_stems (handleFileUpload parseHPRFile st selectedFiles) \<noteq> []"
proof -
  obtain cs cl where p: "parse_files parseHPRFile
       (if up_shouldAppend st then up_stems st else [],
        if up_shouldAppend st then up_totalLogCount st else 0)
       selectedFiles = (cs, cl)" by fastforce
  show ?thesis using assms p by (simp add: handleFileUpload_def processFiles_def Let_def)
qed

lemma reachable_initial: "reachable parseHPRFile initial_upload"
  unfolding initial_upload_def by (rule reachable.start)

text \<open>Whenever the interface of \<^verbatim>\<open>part_000\<close> shows the upload card while records are
  loaded, \<^verbatim>\<open>shouldAppend\<close> is set; so every upload that the interface allows puts its
  records after the records that are loaded.\<close>

lemma reachable_shouldAppend:
  "reachable parseHPRFile st \<Longrightarrow> \<not> up_hasUploaded st \<Longrightarrow> up_stems st \<noteq> [] \<Longrightarrow>
   up_shouldAppend st"
proof (induction rule: reachable.induct)
  case start
  then show ?case by simp
next
  case (upload st selectedFiles)
  then show ?case using handleFileUpload_hasUploaded[of selectedFiles parseHPRFile st] by blast
next
  case (add_more st)
  then show ?case by (simp add: handleAddMoreFiles_def)
next
  case (reset st)
  then show ?case by (simp add: handleReset_def)
qed

lemma reachable_upload_appends:
  assumes "reachable parseHPRFile st" and "\<not> up_hasUploaded st" and "selectedFiles \<noteq> []"
  shows "up_stems (handleFileUpload parseHPRFile st selectedFiles) =
     up_stems st @ concat (map (file_stems parseHPRFile) selectedFiles)"
proof (cases "up_stems st = []")
  case True
  then show ?thesis using assms(3) by (simp add: handleFileUpload_stems)
next
  case False
  then have "up_shouldAppend st" using assms(1,2) by (rule reachable_shouldAppend[rotated 2])
  then show ?thesis using assms(3) by (simp add: handleFileUpload_stems)
qed

lemma batch_with_a_file_twice:
  "up_stems (processFiles parseHPRFile st [doc, doc] False) =
     file_stems parseHPRFile doc @ file_stems parseHPRFile doc"
  by (simp add: processFiles_stems)

text \<open>
  Claim C9. The claim holds of \<^verbatim>\<open>part_000\<close>: a batch is the concatenation of the
  records of its files, with no deduplication, and by the lemmas above every upload that its
  interface allows puts the batch after the loaded records, so that uploading a file again
  doubles its records. \<^verbatim>\<open>processFiles\<close> of \<^verbatim>\<open>src/src/App.tsx\<close> misses
  this: it starts every batch from an empty list. There, uploading a file, asking to upload
  another file and uploading the same file again leaves the dataset with the records of the
  file once, where the same steps in \<^verbatim>\<open>part_000\<close> give them twice.
\<close>

theorem reupload_replaces_in_App_appends_in_part_000:
  "up_stems (App_handleFileUpload example_parse
      (App_uploadAnother (App_handleFileUpload example_parse initial_upload [0])) [0])
     = [example_stem ''stem_0'' ''Spruce'' 0.8 (Some (Finite 150))]
   \<and> up_stems (handleFileUpload example_parse
        (handleAddMoreFiles (handleFileUpload example_parse initial_upload [0])) [0])
     = [example_stem ''stem_0'' ''Spruce'' 0.8 (Some (Finite 150)),
        example_stem ''stem_0'' ''Spruce'' 0.8 (Some (Finite 150))]
   \<and> file_stems example_parse 0 = [example_stem ''stem_0'' ''Spruce'' 0.8 (Some (Finite 150))]"
proof -
  have f: "file_stems example_parse 0 = [example_stem ''stem_0'' ''Spruce'' 0.8 (Some (Finite 150))]"
    by (simp add: file_stems_def example_parse_def)
  have a: "up_stems (App_handleFileUpload example_parse
      (App_uploadAnother (App_handleFileUpload example_parse initial_upload [0])) [0])
     = file_stems example_parse 0"
    by (simp add: App_handleFileUpload_def App_processFiles_stems)
  have r1: "reachable example_parse (handleFileUpload example_parse initial_upload [0])"
    by (rule reachable.upload[OF reachable_initial]) (simp_all add: initial_upload_def)
  have s1: "up_stems (handleFileUpload example_parse initial_upload [0]) = file_stems example_parse 0"
    by (simp add: handleFileUpload_stems initial_upload_def)
  have h1: "up_hasUploaded (handleFileUpload example_parse initial_upload [0])"
    using handleFileUpload_hasUploaded[of "[0::nat]" example_parse initial_upload] s1 f by simp
  have r2: "reachable example_parse
      (handleAddMoreFiles (handleFileUpload example_parse initial_upload [0]))"
    using r1 h1 by (rule reachable.add_more)
  have b: "up_stems (handleFileUpload example_parse
        (handleAddMoreFiles (handleFileUpload example_parse initial_upload [0])) [0])
     = file_stems example_parse 0 @ file_stems example_parse 0"
    using reachable_upload_appends[OF r2, of "[0]"] s1
    by (simp add: handleAddMoreFiles_def)
  show ?thesis using a b f by simp
qed

subsection \<open>Legacy price table importer\<close>

lemma pass_inv_initial: "pass_inv previous (initial_pass previous)"
  by (simp add: pass_inv_def initial_pass_def)

lemma pass_inv_cursor: "pass_inv previous (st\<lparr>fallbackIndex := c\<rparr>) = pass_inv previous st"
  by (simp add: pass_inv_def)

lemma map_averageVolume_update:
  "i < length xs \<Longrightarrow> map averageVolume (xs[i := (xs ! i)\<lparr>price := v\<rparr>]) = map averageVolume xs"
  by (simp add: list_eq_iff_nth_eq nth_list_update)

lemma pass_inv_attemptAssign:
  assumes "pass_inv previous st"
  shows "pass_inv previous (attemptAssign st i tok)"
proof (cases "attemptAssign st i tok = st")
  case True
  with assms show ?thesis by simp
next
  case False
  then obtain t where t: "tok = Some t" "i < length (next_entries st)" "0 < parseNumber (Some t)"
    and eq: "attemptAssign st i tok =
       st\<lparr>next_entries := (next_entries st)[i := (next_entries st ! i)\<lparr>price := parseNumber (Some t)\<rparr>],
          assigned := insert i (assigned st), updated := True\<rparr>"
    by (auto simp: attemptAssign_def Let_def split: option.splits if_splits)
  show ?thesis
    unfolding eq pass_inv_def using assms t(2,3)
    by (auto simp: pass_inv_def nth_list_update map_averageVolume_update)
qed

lemma pass_inv_assign_line:
  "pass_inv previous st \<Longrightarrow> pass_inv previous (assign_line st tokens i mv tok)"
  unfolding assign_line_def by (rule pass_inv_attemptAssign)

lemma pass_inv_process_line:
  assumes "pass_inv previous st"
  shows "pass_inv previous (process_line st rawLine)"
  unfolding process_line_def Let_def
  using assms
  by (auto simp: pass_inv_cursor intro!: pass_inv_assign_line split: option.splits)

lemma pass_inv_foldl:
  "pass_inv previous st \<Longrightarrow> pass_inv previous (foldl process_line st ls)"
  by (induction ls arbitrary: st) (simp_all add: pass_inv_process_line)

lemma pass_inv_bulk_pass: "pass_inv previous (bulk_pass previous pasted)"
  unfolding bulk_pass_def by (rule pass_inv_foldl) (rule pass_inv_initial)

lemma bulk_pass_blank:
  assumes "trim pasted = []"
  shows "bulk_pass previous pasted = initial_pass previous"
proof -
  have "trim [] = []" by (simp add: trim_def)
  then show ?thesis
    unfolding bulk_pass_def assms by (simp add: split_lines_def process_line_def)
qed

text \<open>The flag at the end of the pass is set exactly when an entry has been committed, and
  the entries at the assigned indices hold strictly positive prices.\<close>

lemma updated_iff_assigned:
  "updated (bulk_pass previous pasted) \<longleftrightarrow> assigned (bulk_pass previous pasted) \<noteq> {}"
  using pass_inv_bulk_pass[of previous pasted] by (simp add: pass_inv_def)

lemma assigned_entries_positive:
  "i \<in> assigned (bulk_pass previous pasted) \<Longrightarrow>
   i < length (next_entries (bulk_pass previous pasted))
   \<and> 0 < price (next_entries (bulk_pass previous pasted) ! i)"
  using pass_inv_bulk_pass[of previous pasted] by (simp add: pass_inv_def)

lemma unassigned_pass_keeps_table:
  "assigned (bulk_pass previous pasted) = {} \<Longrightarrow> next_entries (bulk_pass previous pasted) = previous"
  using pass_inv_bulk_pass[of previous pasted] by (simp add: pass_inv_def)

text \<open>What \<^verbatim>\<open>applyBulkPricing\<close> returns: the flag of the pass when the function runs
  at the call, and false in every case when it is queued; the table is that of the pass.\<close>

lemma applyBulkPricing_at_call:
  "fst (applyBulkPricing False previous pasted) \<longleftrightarrow> assigned (bulk_pass previous pasted) \<noteq> {}"
proof (cases "trim pasted = []")
  case True
  then show ?thesis
    by (simp add: applyBulkPricing_def bulk_pass_blank initial_pass_def)
next
  case False
  then show ?thesis
    by (simp add: applyBulkPricing_def updated_iff_assigned)
qed

lemma applyBulkPricing_queued: "\<not> fst (applyBulkPricing True previous pasted)"
  by (simp add: applyBulkPricing_def)

lemma applyBulkPricing_prices:
  "snd (applyBulkPricing queued previous pasted) = next_entries (bulk_pass previous pasted)"
  by (simp add: applyBulkPricing_def bulk_pass_blank initial_pass_def)

lemma handleApplyBulkPricing_queued:
  "handleApplyBulkPricing True st =
     st\<lparr>legacyPrices := next_entries (bulk_pass (legacyPrices st) (bulkPriceText st))\<rparr>"
  using applyBulkPricing_queued[of "legacyPrices st" "bulkPriceText st"]
    applyBulkPricing_prices[of True "legacyPrices st" "bulkPriceText st"]
  by (simp add: handleApplyBulkPricing_def case_prod_unfold)

lemma App_handleApplyBulkPricing_closes:
  "showBulkPaste (App_handleApplyBulkPricing st) = False
   \<and> (trim (bulkPriceText st) \<noteq> [] \<longrightarrow> bulkPriceText (App_handleApplyBulkPricing st) = [])"
  by (simp add: App_handleApplyBulkPricing_def)

lemma example_pass_commits:
  "0 \<in> assigned (bulk_pass initial_legacyPrices ''0.20 110'')"
  "price (next_entries (bulk_pass initial_legacyPrices ''0.20 110'') ! 0) = 110"
  by code_simp+

lemma example_pass_commits_nothing:
  "assigned (foldl process_line (initial_pass initial_legacyPrices) (split_lines ''no price'')) = {}"
  "trim ''no price'' \<noteq> []"
  by code_simp+

text \<open>
  Claim C7. The flag \<^verbatim>\<open>updated\<close> of the pass is what the claim describes, but
  \<^verbatim>\<open>applyBulkPricing\<close> of \<^verbatim>\<open>part_000\<close> returns it before the pass has
  run whenever React queues the function, as it does on the path of the button of the paste
  panel. For the pasted text \<open>0.20 110\<close> the pass commits the price 110 at the breakpoint
  0.20, yet failure is reported, and \<^verbatim>\<open>handleApplyBulkPricing\<close> stores the new table
  while it leaves the text in the panel and the panel open. The handler of
  \<^verbatim>\<open>src/src/App.tsx\<close> has no flag: for the text \<open>no price\<close> its pass commits
  nothing, and it clears the text and closes the panel.
\<close>

theorem bulk_import_commits_but_reports_failure:
  "0 \<in> assigned (bulk_pass initial_legacyPrices ''0.20 110'')
   \<and> fst (applyBulkPricing True initial_legacyPrices ''0.20 110'') = False
   \<and> price (snd (applyBulkPricing True initial_legacyPrices ''0.20 110'') ! 0) = 110
   \<and> handleApplyBulkPricing True
        \<lparr>legacyPrices = initial_legacyPrices, bulkPriceText = ''0.20 110'', showBulkPaste = True\<rparr>
      = \<lparr>legacyPrices = snd (applyBulkPricing True initial_legacyPrices ''0.20 110''),
         bulkPriceText = ''0.20 110'', showBulkPaste = True\<rparr>
   \<and> assigned (foldl process_line (initial_pass initial_legacyPrices) (split_lines ''no price''))
        = {}
   \<and> App_handleApplyBulkPricing
        \<lparr>legacyPrices = initial_legacyPrices, bulkPriceText = ''no price'', showBulkPaste = True\<rparr>
      = \<lparr>legacyPrices = initial_legacyPrices, bulkPriceText = [], showBulkPaste = False\<rparr>"
proof -
  have q: "fst (applyBulkPricing True initial_legacyPrices ''0.20 110'') = False"
    using applyBulkPricing_queued by simp
  have p: "snd (applyBulkPricing True initial_legacyPrices ''0.20 110'')
      = next_entries (bulk_pass initial_legacyPrices ''0.20 110'')"
    by (rule applyBulkPricing_prices)
  have h: "handleApplyBulkPricing True
        \<lparr>legacyPrices = initial_legacyPrices, bulkPriceText = ''0.20 110'', showBulkPaste = True\<rparr>
      = \<lparr>legacyPrices = snd (applyBulkPricing True initial_legacyPrices ''0.20 110''),
         bulkPriceText = ''0.20 110'', showBulkPaste = True\<rparr>"
    unfolding handleApplyBulkPricing_queued p by simp
  have n: "next_entries (foldl process_line (initial_pass initial_legacyPrices)
             (split_lines ''no price'')) = initial_legacyPrices"
    using pass_inv_foldl[OF pass_inv_initial, of initial_legacyPrices "split_lines ''no price''"]
      example_pass_commits_nothing(1)
    by (simp add: pass_inv_def)
  have a: "App_handleApplyBulkPricing
        \<lparr>legacyPrices = initial_legacyPrices, bulkPriceText = ''no price'', showBulkPaste = True\<rparr>
      = \<lparr>legacyPrices = initial_legacyPrices, bulkPriceText = [], showBulkPaste = False\<rparr>"
    using example_pass_commits_nothing(2) n by (simp add: App_handleApplyBulkPricing_def)
  show ?thesis
    using example_pass_commits q h a example_pass_commits_nothing(1) by (simp add: p)
qed

text \<open>The scenario of a pasted table with a volume and a price on each line, separated by a
  tab: the two breakpoints named on the lines get the prices, every other price stays unset.\<close>

lemma example_paste_volume_and_price:
  "map price (next_entries (bulk_pass initial_legacyPrices
      (''0.20'' @ [CHR 0x09] @ ''110'' @ [CHR 0x0A] @ ''0.25'' @ [CHR 0x09] @ ''115'')))
     = [110, 115, 0, 0, 0, 0, 0, 0, 0, 0, 0, 0, 0, 0, 0]"
  by code_simp

lemma skip_assigned_ge: "i \<le> skip_assigned n asg i"
proof (induction n asg i rule: skip_assigned.induct)
  case (1 n asg i)
  show ?case
  proof (cases "i < n \<and> i \<in> asg")
    case True
    with 1 have "i + 1 \<le> skip_assigned n asg (i + 1)" by blast
    with True show ?thesis by (subst skip_assigned.simps) simp
  next
    case False
    then show ?thesis by (subst skip_assigned.simps) auto
  qed
qed

lemma skip_assigned_stop: "skip_assigned n asg i < n \<Longrightarrow> skip_assigned n asg i \<notin> asg"
proof (induction n asg i rule: skip_assigned.induct)
  case (1 n asg i)
  show ?case
  proof (cases "i < n \<and> i \<in> asg")
    case True
    then have e: "skip_assigned n asg i = skip_assigned n asg (i + 1)"
      by (subst skip_assigned.simps) simp
    with 1 True show ?thesis by simp
  next
    case False
    then have e: "skip_assigned n asg i = i" by (subst skip_assigned.simps) auto
    with 1(2) False show ?thesis by auto
  qed
qed

lemma skip_assigned_id: "i \<notin> asg \<or> n \<le> i \<Longrightarrow> skip_assigned n asg i = i"
  by (subst skip_assigned.simps) auto

lemma findIndex_from_None: "findIndex_from i p xs = None \<longleftrightarrow> (\<forall>x\<in>set xs. \<not> p x)"
  by (induction xs arbitrary: i) auto

lemma findIndex_None: "findIndex p xs = None \<longleftrightarrow> (\<forall>x\<in>set xs. \<not> p x)"
  by (simp add: findIndex_def findIndex_from_None)

lemma parseNumber_empty: "parseNumber (Some []) = 0"
  by (simp add: parseNumber_def trim_def Number_js_def)

lemma process_line_positional:
  assumes "numericTokensForLine (trim l) \<noteq> []"
    and "find_matched (numericTokensForLine (trim l)) = None"
  shows "process_line st l =
     (if skip_assigned (length (next_entries st)) (assigned st) (fallbackIndex st)
           \<ge> length (next_entries st)
      then st\<lparr>fallbackIndex :=
                skip_assigned (length (next_entries st)) (assigned st) (fallbackIndex st)\<rparr>
      else attemptAssign
             (st\<lparr>fallbackIndex :=
                   skip_assigned (length (next_entries st)) (assigned st) (fallbackIndex st) + 1\<rparr>)
             (skip_assigned (length (next_entries st)) (assigned st) (fallbackIndex st))
             (Some (last (numericTokensForLine (trim l)))))"
proof -
  let ?c = "skip_assigned (length (next_entries st)) (assigned st) (fallbackIndex st)"
  have ne: "trim l \<noteq> []" using assms(1) by auto
  have na: "?c < length (next_entries st) \<Longrightarrow> ?c \<notin> assigned st"
    by (rule skip_assigned_stop)
  show ?thesis
    unfolding process_line_def Let_def using ne assms na
    by (auto simp: assign_line_def)
qed

lemma attemptAssign_frame:
  "fallbackIndex (attemptAssign st i tok) = fallbackIndex st"
  "length (next_entries (attemptAssign st i tok)) = length (next_entries st)"
  "j \<noteq> i \<Longrightarrow> next_entries (attemptAssign st i tok) ! j = next_entries st ! j"
  "j \<noteq> i \<Longrightarrow> j \<in> assigned (attemptAssign st i tok) \<longleftrightarrow> j \<in> assigned st"
  by (auto simp: attemptAssign_def Let_def split: option.splits)

lemma attemptAssign_commit:
  assumes "i < length (next_entries st)" "0 < parseNumber (Some tok)"
  shows "attemptAssign st i (Some tok) =
     st\<lparr>next_entries := (next_entries st)[i := (next_entries st ! i)\<lparr>price := parseNumber (Some tok)\<rparr>],
        assigned := insert i (assigned st), updated := True\<rparr>"
proof -
  have "tok \<noteq> []" using assms(2) parseNumber_empty by auto
  then show ?thesis using assms by (simp add: attemptAssign_def Let_def)
qed

lemma attemptAssign_discard:
  "parseNumber (Some tok) \<le> 0 \<Longrightarrow> attemptAssign st i (Some tok) = st"
  by (simp add: attemptAssign_def Let_def)

lemma positional_line_keeps_skipped:
  assumes "find_matched (numericTokensForLine (trim l)) = None"
    and "c < fallbackIndex st" and "c \<notin> assigned st"
  shows "c < fallbackIndex (process_line st l) \<and> c \<notin> assigned (process_line st l)
     \<and> next_entries (process_line st l) ! c = next_entries st ! c"
proof (cases "numericTokensForLine (trim l) = []")
  case True
  then have "process_line st l = st" by (simp add: process_line_def Let_def)
  with assms show ?thesis by simp
next
  case False
  let ?c = "skip_assigned (length (next_entries st)) (assigned st) (fallbackIndex st)"
  have ge: "fallbackIndex st \<le> ?c" by (rule skip_assigned_ge)
  then have neq: "c \<noteq> ?c" and lt: "c < ?c" using assms(2) by auto
  show ?thesis
    unfolding process_line_positional[OF False assms(1)]
    using assms(3) neq lt by (simp add: attemptAssign_frame)
qed

lemma positional_lines_keep_skipped:
  assumes "\<forall>l\<in>set ls. find_matched (numericTokensForLine (trim l)) = None"
    and "c < fallbackIndex st" and "c \<notin> assigned st"
  shows "c < fallbackIndex (foldl process_line st ls) \<and> c \<notin> assigned (foldl process_line st ls)
     \<and> next_entries (foldl process_line st ls) ! c = next_entries st ! c"
  using assms
proof (induction ls arbitrary: st)
  case Nil
  then show ?case by simp
next
  case (Cons l ls)
  have m: "find_matched (numericTokensForLine (trim l)) = None" using Cons.prems(1) by simp
  from positional_line_keeps_skipped[OF m Cons.prems(2,3)]
  have s: "c < fallbackIndex (process_line st l)" "c \<notin> assigned (process_line st l)"
    "next_entries (process_line st l) ! c = next_entries st ! c" by blast+
  have "\<forall>l\<in>set ls. find_matched (numericTokensForLine (trim l)) = None"
    using Cons.prems(1) by simp
  from Cons.IH[OF this s(1,2)] s(3) show ?case by simp
qed

text \<open>
  Claim C10. Within one pass, take a line that has numeric tokens, none of which matches a
  breakpoint, for which the cursor finds an index \<open>c\<close> of the table, and whose last token
  has a value that is not strictly positive. Processing the line changes nothing but the
  cursor, which moves to \<open>c + 1\<close>: no entry is committed and \<open>c\<close> is not marked as
  assigned. Whatever lines without a breakpoint-matching token follow in the pass, the cursor
  stays beyond \<open>c\<close>, the index \<open>c\<close> is never marked as assigned and the entry at \<open>c\<close> keeps
  the value it had before the line.
\<close>

theorem skipped_breakpoint_stays_unfilled:
  assumes "numericTokensForLine (trim l) \<noteq> []"
    and "find_matched (numericTokensForLine (trim l)) = None"
    and "c = skip_assigned (length (next_entries st)) (assigned st) (fallbackIndex st)"
    and "c < length (next_entries st)"
    and "parseNumber (Some (last (numericTokensForLine (trim l)))) \<le> 0"
    and "\<forall>l'\<in>set ls. find_matched (numericTokensForLine (trim l')) = None"
  shows "process_line st l = st\<lparr>fallbackIndex := c + 1\<rparr>
     \<and> c \<notin> assigned st
     \<and> c < fallbackIndex (foldl process_line (process_line st l) ls)
     \<and> c \<notin> assigned (foldl process_line (process_line st l) ls)
     \<and> next_entries (foldl process_line (process_line st l) ls) ! c = next_entries st ! c"
proof -
  have na: "c \<notin> assigned st"
    using assms(3,4) skip_assigned_stop by blast
  have step: "process_line st l = st\<lparr>fallbackIndex := c + 1\<rparr>"
    unfolding process_line_positional[OF assms(1,2)]
    using assms(3,4,5) by (simp add: attemptAssign_discard)
  have "c < fallbackIndex (st\<lparr>fallbackIndex := c + 1\<rparr>)" "c \<notin> assigned (st\<lparr>fallbackIndex := c + 1\<rparr>)"
    using na by simp_all
  from positional_lines_keep_skipped[OF assms(6) this]
  show ?thesis using na step by simp
qed

lemma example_skipped_line:
  "numericTokensForLine (trim ''5 -3'') = [''5'', ''-3'']"
  "find_matched [''5'', ''-3''] = None"
  "parseNumber (Some ''-3'') \<le> 0"
  "find_matched (numericTokensForLine (trim ''7'')) = None"
  "find_matched (numericTokensForLine (trim ''8'')) = None"
  by code_simp+

theorem skipped_breakpoint_stays_unfilled_witness:
  "next_entries (foldl process_line (initial_pass initial_legacyPrices) [''5 -3'', ''7'', ''8'']) ! 0
     = initial_legacyPrices ! 0
   \<and> 0 \<notin> assigned (foldl process_line (initial_pass initial_legacyPrices) [''5 -3'', ''7'', ''8''])
   \<and> process_line (initial_pass initial_legacyPrices) ''5 -3''
       = (initial_pass initial_legacyPrices)\<lparr>fallbackIndex := 1\<rparr>"
proof -
  let ?st = "initial_pass initial_legacyPrices"
  have c: "0 = skip_assigned (length (next_entries ?st)) (assigned ?st) (fallbackIndex ?st)"
    by (simp add: initial_pass_def skip_assigned_id)
  have n: "0 < length (next_entries ?st)"
    by (simp add: initial_pass_def initial_legacyPrices_def LEGACY_AVERAGE_VOLUMES_def)
  have t: "numericTokensForLine (trim ''5 -3'') \<noteq> []"
    "find_matched (numericTokensForLine (trim ''5 -3'')) = None"
    "parseNumber (Some (last (numericTokensForLine (trim ''5 -3'')))) \<le> 0"
    unfolding example_skipped_line(1) using example_skipped_line(2,3) by simp_all
  have ls: "\<forall>l'\<in>set [''7'', ''8'']. find_matched (numericTokensForLine (trim l')) = None"
    using example_skipped_line(4,5) by simp
  have e: "next_entries ?st ! 0 = initial_legacyPrices ! 0" by (simp add: initial_pass_def)
  from skipped_breakpoint_stays_unfilled[OF t(1,2) c n t(3) ls]
  have r: "process_line ?st ''5 -3'' = ?st\<lparr>fallbackIndex := 0 + 1\<rparr>"
    "0 \<notin> assigned (foldl process_line (process_line ?st ''5 -3'') [''7'', ''8''])"
    "next_entries (foldl process_line (process_line ?st ''5 -3'') [''7'', ''8'']) ! 0
       = next_entries ?st ! 0"
    by blast+
  have f: "foldl process_line ?st [''5 -3'', ''7'', ''8'']
      = foldl process_line (process_line ?st ''5 -3'') [''7'', ''8'']" by simp
  show ?thesis unfolding f using r e by simp
qed

subsection \<open>Positional import of a column of prices\<close>

lemma positional_inv_initial: "positional_inv previous [] (initial_pass previous)"
  by (simp add: positional_inv_def initial_pass_def)

lemma find_matched_positional:
  assumes "0 < parseNumber (Some tok)"
    and "\<forall>b\<in>set LEGACY_AVERAGE_VOLUMES. 1 / 1000000 < \<bar>b - parseNumber (Some tok)\<bar>"
  shows "find_matched [tok] = None"
proof -
  have "\<forall>b\<in>set LEGACY_AVERAGE_VOLUMES. \<not> \<bar>b - parseNumber (Some tok)\<bar> < 1 / 1000000"
    using assms(2) by fastforce
  then have "findIndex (\<lambda>volume. \<bar>volume - parseNumber (Some tok)\<bar> < 1 / 1000000)
          LEGACY_AVERAGE_VOLUMES = None"
    by (simp add: findIndex_None)
  then show ?thesis using assms(1) by (simp add: Let_def)
qed

lemma positional_inv_step:
  assumes inv: "positional_inv previous vs st" and pv: "positional_value l v"
  shows "positional_inv previous (vs @ [v]) (process_line st l)"
proof -
  let ?n = "length previous"
  let ?m = "min (length vs) ?n"
  from pv obtain tok where tok: "numericTokensForLine (trim l) = [tok]"
    "v = parseNumber (Some tok)" "0 < v"
    "\<forall>b\<in>set LEGACY_AVERAGE_VOLUMES. 1 / 1000000 < \<bar>b - v\<bar>"
    unfolding positional_value_def by blast
  have fm: "find_matched (numericTokensForLine (trim l)) = None"
    unfolding tok(1) using tok(2,3,4) by (intro find_matched_positional) simp_all
  have ne: "numericTokensForLine (trim l) \<noteq> []" using tok(1) by simp
  from inv have fi: "fallbackIndex st = ?m" and asg: "assigned st = {0..<?m}"
    and len: "length (next_entries st) = ?n"
    and ent: "\<And>k. k < ?n \<Longrightarrow> next_entries st ! k =
             (if k < length vs then (previous ! k)\<lparr>price := vs ! k\<rparr> else previous ! k)"
    unfolding positional_inv_def by blast+
  have cur: "skip_assigned ?n (assigned st) (fallbackIndex st) = ?m"
    unfolding fi asg by (rule skip_assigned_id) simp
  show ?thesis
  proof (cases "length vs < ?n")
    case False
    then have m: "?m = ?n" by simp
    have "process_line st l = st\<lparr>fallbackIndex := ?n\<rparr>"
      unfolding process_line_positional[OF ne fm] len cur m by simp
    then show ?thesis
      using False fi asg len ent m by (auto simp: positional_inv_def nth_append)
  next
    case True
    then have m: "?m = length vs" by simp
    have p: "0 < parseNumber (Some tok)" using tok(2,3) by simp
    have l': "length vs < length (next_entries (st\<lparr>fallbackIndex := length vs + 1\<rparr>))"
      using True len by simp
    have "process_line st l =
        attemptAssign (st\<lparr>fallbackIndex := length vs + 1\<rparr>) (length vs) (Some tok)"
      unfolding process_line_positional[OF ne fm] len cur m tok(1) using True by simp
    also have "\<dots> = st\<lparr>fallbackIndex := length vs + 1,
        next_entries := (next_entries st)[length vs := (next_entries st ! length vs)\<lparr>price := v\<rparr>],
        assigned := insert (length vs) (assigned st), updated := True\<rparr>"
      unfolding attemptAssign_commit[OF l' p] tok(2) by simp
    finally have pl: "process_line st l = st\<lparr>fallbackIndex := length vs + 1,
        next_entries := (next_entries st)[length vs := (next_entries st ! length vs)\<lparr>price := v\<rparr>],
        assigned := insert (length vs) (assigned st), updated := True\<rparr>" .
    have a: "insert (length vs) {0..<length vs} = {0..<length vs + 1}" by auto
    show ?thesis
      unfolding pl positional_inv_def using True asg len ent m
      by (auto simp: a nth_append nth_list_update)
  qed
qed

lemma positional_inv_foldl:
  assumes "positional_inv previous vs st" and "list_all2 positional_value ls ws"
  shows "positional_inv previous (vs @ ws) (foldl process_line st ls)"
  using assms(2,1)
proof (induction ls ws arbitrary: vs st rule: list_all2_induct)
  case Nil
  then show ?case by simp
next
  case (Cons l ls w ws)
  from positional_inv_step[OF Cons.prems Cons.hyps(1)]
  have "positional_inv previous (vs @ [w]) (process_line st l)" .
  from Cons.IH[OF this] show ?case by simp
qed

lemma split_lines_acc_nonempty: "split_lines_acc cur s \<noteq> []"
  by (induction cur s rule: split_lines_acc.induct) auto

lemma split_lines_nonempty: "split_lines s \<noteq> []"
  by (simp add: split_lines_def split_lines_acc_nonempty)

lemma LEGACY_AVERAGE_VOLUMES_ascending:
  "sorted_wrt (<) LEGACY_AVERAGE_VOLUMES" "length LEGACY_AVERAGE_VOLUMES = 15"
  by (simp_all add: LEGACY_AVERAGE_VOLUMES_def)

lemma positional_pass:
  assumes "list_all2 positional_value (split_lines (trim pasted)) vs"
  shows "positional_inv previous vs (bulk_pass previous pasted)"
  unfolding bulk_pass_def
  using positional_inv_foldl[OF positional_inv_initial assms, of previous] by simp

text \<open>
  Claim C8. Let every line of the pasted text hold exactly one numeric token, with a strictly
  positive value that is more than \<open>1/1000000\<close> away from each of the 15 breakpoints, and
  let \<open>vs\<close> be the values of the lines in order. Starting from a table with the 15 fixed
  breakpoints, the table of the import has, at every index \<open>k\<close> below the number of lines,
  the \<open>k\<close>-th breakpoint with the value of the \<open>k\<close>-th line as its price, and the former
  entry at every other index; the breakpoints are in ascending order. Lines beyond the
  fifteenth have no breakpoint left and assign nothing. This is so whether the function of
  the import runs at the call or is queued.
\<close>

theorem positional_import_fills_breakpoints_in_order:
  assumes "list_all2 positional_value (split_lines (trim pasted)) vs"
    and "map averageVolume previous = LEGACY_AVERAGE_VOLUMES"
  shows "length (snd (applyBulkPricing queued previous pasted)) = 15
     \<and> (\<forall>k<15. snd (applyBulkPricing queued previous pasted) ! k =
           (if k < length vs
            then \<lparr>averageVolume = LEGACY_AVERAGE_VOLUMES ! k, price = vs ! k\<rparr>
            else previous ! k))
     \<and> sorted_wrt (<) LEGACY_AVERAGE_VOLUMES"
proof -
  have n: "length previous = 15"
    using assms(2) LEGACY_AVERAGE_VOLUMES_ascending(2) by (metis length_map)
  have av: "\<And>k. k < 15 \<Longrightarrow> averageVolume (previous ! k) = LEGACY_AVERAGE_VOLUMES ! k"
    using assms(2) n by (metis nth_map)
  from positional_pass[OF assms(1), of previous]
  have len: "length (next_entries (bulk_pass previous pasted)) = 15"
    and ent: "\<And>k. k < 15 \<Longrightarrow> next_entries (bulk_pass previous pasted) ! k =
             (if k < length vs then (previous ! k)\<lparr>price := vs ! k\<rparr> else previous ! k)"
    unfolding positional_inv_def n by blast+
  have e: "\<forall>k<15. snd (applyBulkPricing queued previous pasted) ! k =
           (if k < length vs
            then \<lparr>averageVolume = LEGACY_AVERAGE_VOLUMES ! k, price = vs ! k\<rparr>
            else previous ! k)"
  proof (intro allI impI)
    fix k :: nat assume k: "k < 15"
    have "(previous ! k)\<lparr>price := vs ! k\<rparr> =
        \<lparr>averageVolume = LEGACY_AVERAGE_VOLUMES ! k, price = vs ! k\<rparr>"
      using av[OF k] by (cases "previous ! k") simp
    then show "snd (applyBulkPricing queued previous pasted) ! k =
           (if k < length vs
            then \<lparr>averageVolume = LEGACY_AVERAGE_VOLUMES ! k, price = vs ! k\<rparr>
            else previous ! k)"
      unfolding applyBulkPricing_prices ent[OF k] by simp
  qed
  show ?thesis
    using e len LEGACY_AVERAGE_VOLUMES_ascending(1) by (simp add: applyBulkPricing_prices)
qed

lemma example_column:
  "split_lines (trim ''110\<newline>115\<newline>120'') = [''110'', ''115'', ''120'']"
  "numericTokensForLine (trim ''110'') = [''110'']"
  "numericTokensForLine (trim ''115'') = [''115'']"
  "numericTokensForLine (trim ''120'') = [''120'']"
  "parseNumber (Some ''110'') = 110"
  "parseNumber (Some ''115'') = 115"
  "parseNumber (Some ''120'') = 120"
  by code_simp+

theorem positional_import_fills_breakpoints_in_order_witness:
  "map price (take 4 (snd (applyBulkPricing True initial_legacyPrices ''110\<newline>115\<newline>120'')))
       = [110, 115, 120, 0]
   \<and> map averageVolume
        (take 4 (snd (applyBulkPricing True initial_legacyPrices ''110\<newline>115\<newline>120'')))
       = [0.2, 0.25, 0.3, 0.35]"
proof -
  have far: "\<And>v::real. 100 \<le> v \<Longrightarrow> \<forall>b\<in>set LEGACY_AVERAGE_VOLUMES. 1 / 1000000 < \<bar>b - v\<bar>"
    by (auto simp: LEGACY_AVERAGE_VOLUMES_def)
  have pv: "positional_value ''110'' 110" "positional_value ''115'' 115"
    "positional_value ''120'' 120"
    unfolding positional_value_def example_column using far by (simp_all add: example_column)
  have h1: "list_all2 positional_value (split_lines (trim ''110\<newline>115\<newline>120'')) [110, 115, 120]"
    unfolding example_column(1) using pv by simp
  have h2: "map averageVolume initial_legacyPrices = LEGACY_AVERAGE_VOLUMES"
    by (simp add: initial_legacyPrices_def comp_def)
  let ?t = "snd (applyBulkPricing True initial_legacyPrices ''110\<newline>115\<newline>120'')"
  from positional_import_fills_breakpoints_in_order[OF h1 h2, of True]
  have len: "length ?t = 15"
    and e: "\<And>k. k < 15 \<Longrightarrow> ?t ! k =
           (if k < length [110, 115, 120::real]
            then \<lparr>averageVolume = LEGACY_AVERAGE_VOLUMES ! k, price = [110, 115, 120] ! k\<rparr>
            else initial_legacyPrices ! k)"
    by blast+
  have t4: "take 4 ?t = [?t ! 0, ?t ! 1, ?t ! 2, ?t ! 3]"
    using len by (simp add: list_eq_iff_nth_eq nth_Cons' less_Suc_eq numeral_eq_Suc)
  have v: "?t ! 0 = \<lparr>averageVolume = 0.2, price = 110\<rparr>"
    "?t ! 1 = \<lparr>averageVolume = 0.25, price = 115\<rparr>"
    "?t ! 2 = \<lparr>averageVolume = 0.3, price = 120\<rparr>"
    "?t ! 3 = \<lparr>averageVolume = 0.35, price = 0\<rparr>"
    using e[of 0] e[of 1] e[of 2] e[of 3]
    by (simp_all add: LEGACY_AVERAGE_VOLUMES_def initial_legacyPrices_def)
  show ?thesis unfolding t4 v by simp
qed

end
